theory Spec2Isabelle
  imports Complex_Main "HOL-Library.AList" "HOL-Library.Char_ord" "HOL-Library.List_Lexorder"
    "HOL-Library.Product_Lexorder"
begin

section \<open>Values, errors and the numeric library\<close>

text \<open>
  The program is \<^verbatim>\<open>fcm_data.py\<close>, class \<^verbatim>\<open>FcmDataProcessor\<close>. Floating-point
  numbers are idealised as reals, a one-dimensional numpy array is a list of reals and a
  Python \<^verbatim>\<open>dict\<close> is an association list with distinct keys in insertion order
  (\<^const>\<open>AList.update\<close> overwrites in place or appends). Every exception of the
  source is a value \<open>Inl e\<close> of the result type.
\<close>

datatype error =
    IndexError
  | KeyError string
  | TypeError
  | ValueError
  | AssertionError
  | AttributeError
  | SyntaxError

type_synonym array = "real list"

definition rbind :: "error + 'a \<Rightarrow> ('a \<Rightarrow> error + 'b) \<Rightarrow> error + 'b" where
  "rbind r f = (case r of Inl e \<Rightarrow> Inl e | Inr v \<Rightarrow> f v)"

text \<open>\<^verbatim>\<open>xs[i]\<close> for a non-negative index: IndexError out of range.\<close>

definition item :: "'a list \<Rightarrow> nat \<Rightarrow> error + 'a" where
  "item xs i = (if i < length xs then Inr (xs ! i) else Inl IndexError)"

text \<open>\<^verbatim>\<open>xs[-k]\<close> for \<open>k > 0\<close>: the k-th element from the end.\<close>

definition item_from_end :: "'a list \<Rightarrow> nat \<Rightarrow> error + 'a" where
  "item_from_end xs k =
     (if 0 < k \<and> k \<le> length xs then Inr (xs ! (length xs - k)) else Inl IndexError)"

text \<open>\<^verbatim>\<open>np.arange(start, stop, step)\<close> for a positive step, and the universe of
  discourse of \<^verbatim>\<open>__init__\<close>: \<^verbatim>\<open>np.arange(-1, 1.001, 0.001)\<close>, 2001 samples.\<close>

definition arange :: "real \<Rightarrow> real \<Rightarrow> real \<Rightarrow> array" where
  "arange start stop step =
     map (\<lambda>i. start + real i * step) [0 ..< nat \<lceil>(stop - start) / step\<rceil>]"

definition universe :: array where
  "universe = arange (-1) (1001 / 1000) (1 / 1000)"

text \<open>\<^verbatim>\<open>np.linspace(start, stop, num)\<close>, endpoint included.\<close>

definition linspace :: "real \<Rightarrow> real \<Rightarrow> nat \<Rightarrow> array" where
  "linspace start stop num =
     (if num = 1 then [start]
      else map (\<lambda>i. start + real i * ((stop - start) / real (num - 1))) [0 ..< num])"

text \<open>\<^verbatim>\<open>a.min()\<close> and \<^verbatim>\<open>a.max()\<close>: ValueError on an empty array.\<close>

definition amin :: "array \<Rightarrow> error + real" where
  "amin a = (case a of [] \<Rightarrow> Inl ValueError | x # xs \<Rightarrow> Inr (fold min xs x))"

definition amax :: "array \<Rightarrow> error + real" where
  "amax a = (case a of [] \<Rightarrow> Inl ValueError | x # xs \<Rightarrow> Inr (fold max xs x))"

text \<open>\<^verbatim>\<open>np.fmin(scalar, array)\<close> as \<^verbatim>\<open>activate\<close> calls it.\<close>

definition fmin :: "real \<Rightarrow> array \<Rightarrow> array" where
  "fmin v a = map (min v) a"

text \<open>\<^verbatim>\<open>np.fmax(x, y)\<close> on two arrays: elementwise, a one-element array is
  broadcast, any other pair of different lengths is a ValueError.\<close>

definition fmax :: "array \<Rightarrow> array \<Rightarrow> error + array" where
  "fmax x y =
     (if length x = length y then Inr (map2 max x y)
      else if length x = 1 then Inr (map (max (hd x)) y)
      else if length y = 1 then Inr (map (\<lambda>u. max u (hd y)) x)
      else Inl ValueError)"

subsection \<open>scikit-fuzzy: triangular membership function\<close>

text \<open>
  \<^verbatim>\<open>skfuzzy.trimf(x, abc)\<close> asserts \<open>a \<le> b \<le> c\<close>, starts from zeros, writes the left
  slope on \<open>a < x < b\<close> when \<open>a \<noteq> b\<close>, the right slope on \<open>b < x < c\<close> when \<open>b \<noteq> c\<close>,
  and last writes 1 where \<open>x = b\<close>. \<open>trimf1\<close> is the value at one sample.
\<close>

definition trimf1 :: "real \<Rightarrow> real \<Rightarrow> real \<Rightarrow> real \<Rightarrow> real" where
  "trimf1 a b c x =
     (if x = b then 1
      else if b \<noteq> c \<and> b < x \<and> x < c then (c - x) / (c - b)
      else if a \<noteq> b \<and> a < x \<and> x < b then (x - a) / (b - a)
      else 0)"

definition trimf :: "array \<Rightarrow> real \<times> real \<times> real \<Rightarrow> error + array" where
  "trimf x abc =
     (case abc of (a, b, c) \<Rightarrow>
        if a \<le> b \<and> b \<le> c then Inr (map (trimf1 a b c) x) else Inl AssertionError)"

section \<open>automf: the membership functions of the linguistic terms\<close>

text \<open>
  Lines 82--104. \<open>number / 2\<close> is Python's true division, \<open>number // 2\<close> the floor
  division. For \<open>number = 2\<close> the width is a numpy division by zero, which warns and
  yields infinity without raising; the call then fails at \<^verbatim>\<open>centers_pos[1]\<close> before
  any width is used, so the value HOL gives \<open>x / 0\<close> is never read.
\<close>

definition widths :: "array \<Rightarrow> nat \<Rightarrow> error + array" where
  "widths u number =
     rbind (amin u) (\<lambda>lo. rbind (amax u) (\<lambda>hi.
       let universe_range = (hi - lo) / 2
       in Inr (replicate number (universe_range / (((real number / 2) - 1) / 2)))))"

definition centers_pos :: "nat \<Rightarrow> array" where
  "centers_pos number = linspace (1 / 1000) 1 (number div 2)"

definition centers_neg :: "nat \<Rightarrow> array" where
  "centers_neg number = linspace (-1) (- (1 / 1000)) (number div 2)"

definition centers :: "nat \<Rightarrow> array" where
  "centers number = centers_neg number @ centers_pos number"

definition abcs0 :: "array \<Rightarrow> array \<Rightarrow> (real \<times> real \<times> real) list" where
  "abcs0 cs ws = map (\<lambda>(c, w). (c - w / 2, c, c + w / 2)) (zip cs ws)"

text \<open>The two assignments of lines 95 and 96; the right-hand side is evaluated before
  the store, and both stores are in range whenever the right-hand sides are.\<close>

definition abcs :: "array \<Rightarrow> nat \<Rightarrow> error + (real \<times> real \<times> real) list" where
  "abcs u number =
     rbind (widths u number) (\<lambda>ws.
       let l0 = abcs0 (centers number) ws in
       rbind (item (centers_pos number) 1) (\<lambda>cp1.
         rbind (item l0 (number div 2)) (\<lambda>_.
           let l1 = l0[number div 2 := (1 / 1000, 1 / 1000, cp1)] in
           rbind (item_from_end (centers_neg number) 2) (\<lambda>cn2.
             rbind (item l1 (number div 2 - 1)) (\<lambda>_.
               Inr (l1[number div 2 - 1 := (cn2, - (1 / 1000), - (1 / 1000))]))))))"

text \<open>The loop of lines 101--102 over \<^verbatim>\<open>zip(linguistic_terms, abcs)\<close>.\<close>

fun repopulate ::
  "array \<Rightarrow> (string \<times> array) list \<Rightarrow> (string \<times> real \<times> real \<times> real) list
     \<Rightarrow> error + (string \<times> array) list" where
  "repopulate u terms [] = Inr terms"
| "repopulate u terms ((t, abc) # rest) =
     rbind (trimf u abc) (\<lambda>y. repopulate u (AList.update t y terms) rest)"

definition automf :: "array \<Rightarrow> string list \<Rightarrow> error + (string \<times> array) list" where
  "automf u linguistic_terms =
     rbind (abcs u (length linguistic_terms)) (\<lambda>l.
       repopulate u [] (zip linguistic_terms l))"

definition default_terms :: "string list" where
  "default_terms = [''-VH'', ''-H'', ''-M'', ''-L'', ''-VL'', ''VL'', ''L'', ''M'', ''H'', ''VH'']"

section \<open>activate and aggregate\<close>

text \<open>Lines 128--132: \<^verbatim>\<open>mf[i]\<close> raises KeyError for a term without a membership
  function.\<close>

fun activate_loop ::
  "(string \<times> array) list \<Rightarrow> (string \<times> real) list \<Rightarrow> (string \<times> array) list
     \<Rightarrow> error + (string \<times> array) list" where
  "activate_loop activated [] mf = Inr activated"
| "activate_loop activated ((i, v) # rest) mf =
     (case map_of mf i of
        None \<Rightarrow> Inl (KeyError i)
      | Some m \<Rightarrow> activate_loop (AList.update i (fmin v m) activated) rest mf)"

definition activate ::
  "(string \<times> real) list \<Rightarrow> (string \<times> array) list \<Rightarrow> error + (string \<times> array) list" where
  "activate activation_input mf = activate_loop [] activation_input mf"

text \<open>Lines 149--150: \<^verbatim>\<open>functools.reduce\<close> without an initial value raises
  TypeError on an empty sequence; otherwise it folds \<^verbatim>\<open>np.fmax\<close> from the left.\<close>

fun reduce_fmax :: "array \<Rightarrow> array list \<Rightarrow> error + array" where
  "reduce_fmax x [] = Inr x"
| "reduce_fmax x (y # ys) = rbind (fmax x y) (\<lambda>z. reduce_fmax z ys)"

definition aggregate :: "(string \<times> array) list \<Rightarrow> error + array" where
  "aggregate activated =
     (case map snd activated of
        [] \<Rightarrow> Inl TypeError
      | x # xs \<Rightarrow> reduce_fmax x xs)"

section \<open>defuzzify\<close>

text \<open>
  Line 177 hands its three arguments to \<^verbatim>\<open>skfuzzy.defuzz\<close>, which is library code
  and not among the sources. What the model fixes of it: it lower-cases the mode, asserts
  equal lengths, and selects the method by substring tests in the order centroid,
  bisector, mom, som, lom, an unknown mode being a ValueError; for centroid and bisector
  it first asserts that the sum of the memberships is not zero (``Total area is zero in
  defuzzification!''); the centroid integrates the piecewise-linear membership segment
  by segment and divides by the area, bounded below by the machine epsilon \<open>2\<^sup>-\<^sup>5\<^sup>2\<close>.
  The bisector, mean-of-maximum, smallest-of-maximum and largest-of-maximum routines are
  left open: they are the fields of a parameter \<open>lib\<close>, and no property below says what
  they return.
\<close>

definition lower :: "string \<Rightarrow> string" where
  "lower s =
     map (\<lambda>c. case map_of (zip ''ABCDEFGHIJKLMNOPQRSTUVWXYZ'' ''abcdefghijklmnopqrstuvwxyz'') c of
                None \<Rightarrow> c | Some d \<Rightarrow> d) s"

fun is_in :: "string \<Rightarrow> string \<Rightarrow> bool" where
  "is_in sub [] = (sub = [])"
| "is_in sub (c # cs) = (take (length sub) (c # cs) = sub \<or> is_in sub cs)"

definition eps :: real where
  "eps = 1 / 2 ^ 52"

text \<open>One segment of the centroid: (moment times area, area).\<close>

definition segment :: "real \<Rightarrow> real \<Rightarrow> real \<Rightarrow> real \<Rightarrow> real \<times> real" where
  "segment x1 x2 y1 y2 =
     (if (y1 = y2 \<and> y2 = 0) \<or> x1 = x2 then (0, 0)
      else if y1 = y2 then ((1 / 2) * (x1 + x2) * ((x2 - x1) * y1), (x2 - x1) * y1)
      else if y1 = 0 \<and> y2 \<noteq> 0 then
        ((2 / 3 * (x2 - x1) + x1) * ((1 / 2) * (x2 - x1) * y2), (1 / 2) * (x2 - x1) * y2)
      else if y2 = 0 \<and> y1 \<noteq> 0 then
        ((1 / 3 * (x2 - x1) + x1) * ((1 / 2) * (x2 - x1) * y1), (1 / 2) * (x2 - x1) * y1)
      else
        (((2 / 3 * (x2 - x1) * (y2 + (1 / 2) * y1)) / (y1 + y2) + x1) * ((1 / 2) * (x2 - x1) * (y1 + y2)),
         (1 / 2) * (x2 - x1) * (y1 + y2)))"

fun segments :: "array \<Rightarrow> array \<Rightarrow> (real \<times> real) list" where
  "segments (x1 # x2 # xs) (y1 # y2 # ys) = segment x1 x2 y1 y2 # segments (x2 # xs) (y2 # ys)"
| "segments xs ys = []"

definition centroid :: "array \<Rightarrow> array \<Rightarrow> real" where
  "centroid x mfx =
     (if length x = 1 then hd x * hd mfx / max (hd mfx) eps
      else sum_list (map fst (segments x mfx)) / max (sum_list (map snd (segments x mfx))) eps)"

record routines =
  bisector_of :: "array \<Rightarrow> array \<Rightarrow> error + real"
  mom_of :: "array \<Rightarrow> array \<Rightarrow> error + real"
  som_of :: "array \<Rightarrow> array \<Rightarrow> error + real"
  lom_of :: "array \<Rightarrow> array \<Rightarrow> error + real"

definition defuzz :: "routines \<Rightarrow> array \<Rightarrow> array \<Rightarrow> string \<Rightarrow> error + real" where
  "defuzz lib x mfx mode0 =
     (let mode = lower mode0 in
      if length x \<noteq> length mfx then Inl AssertionError
      else if is_in ''centroid'' mode \<or> is_in ''bisector'' mode then
        (if sum_list mfx = 0 then Inl AssertionError
         else if is_in ''centroid'' mode then Inr (centroid x mfx)
         else bisector_of lib x mfx)
      else if is_in ''mom'' mode then mom_of lib x mfx
      else if is_in ''som'' mode then som_of lib x mfx
      else if is_in ''lom'' mode then lom_of lib x mfx
      else Inl ValueError)"

definition defuzzify :: "routines \<Rightarrow> array \<Rightarrow> array \<Rightarrow> string \<Rightarrow> error + real" where
  "defuzzify lib u aggregated method = defuzz lib u aggregated method"

subsection \<open>Auxiliary predicate: a well-formed triangle with its apex at a given center\<close>

definition ok_abc :: "real \<Rightarrow> real \<times> real \<times> real \<Rightarrow> bool" where
  "ok_abc c abc = (case abc of (a, b, d) \<Rightarrow> a \<le> b \<and> b \<le> d \<and> b = c)"

section \<open>The text of a dict: str, replace and eval\<close>

text \<open>
  Line 230 prints the tally with \<^verbatim>\<open>str\<close>, deletes every double-quote character and
  evaluates the text. A Python string is a list of symbols: a character, or the text of a
  float literal kept whole (\<open>Num\<close>). The digits of a float are not modelled: Python's
  \<^verbatim>\<open>repr\<close> of a float contains no quote character and evaluates back to the same
  float. Strings are ASCII.
\<close>

datatype sym = Ch char | Num real

definition bs :: char where "bs = CHR 0x5C"
definition sq :: char where "sq = CHR 0x27"
definition dq :: char where "dq = CHR 0x22"

definition hexdigit :: "nat \<Rightarrow> char" where
  "hexdigit n = ''0123456789abcdef'' ! n"

definition unhex :: "char \<Rightarrow> nat option" where
  "unhex c = map_of (zip ''0123456789abcdefABCDEF''
                         [0, 1, 2, 3, 4, 5, 6, 7, 8, 9, 10, 11, 12, 13, 14, 15, 10, 11, 12, 13, 14, 15]) c"

text \<open>\<^verbatim>\<open>repr\<close> of a string: double quotes when the string holds a single quote and no
  double quote, single quotes otherwise; the quote in use and the backslash are escaped,
  control characters are written \<^verbatim>\<open>\n\<close>, \<^verbatim>\<open>\r\<close>, \<^verbatim>\<open>\t\<close> or \<^verbatim>\<open>\xhh\<close>.\<close>

definition escape :: "char \<Rightarrow> char \<Rightarrow> string" where
  "escape q c =
     (if c = bs then [bs, bs]
      else if c = q then [bs, q]
      else if c = CHR 0x0A then [bs, CHR ''n'']
      else if c = CHR 0x0D then [bs, CHR ''r'']
      else if c = CHR 0x09 then [bs, CHR ''t'']
      else if (of_char c :: nat) < 32 \<or> (of_char c :: nat) = 127 then
        [bs, CHR ''x'', hexdigit ((of_char c :: nat) div 16), hexdigit ((of_char c :: nat) mod 16)]
      else [c])"

definition py_repr :: "string \<Rightarrow> string" where
  "py_repr s =
     (let q = (if sq \<in> set s \<and> dq \<notin> set s then dq else sq)
      in q # concat (map (escape q) s) @ [q])"

definition str_entry :: "string \<times> real \<Rightarrow> sym list" where
  "str_entry e = map Ch (py_repr (fst e)) @ [Ch CHR '':'', Ch CHR '' '', Num (snd e)]"

fun join :: "'a list \<Rightarrow> 'a list list \<Rightarrow> 'a list" where
  "join sep [] = []"
| "join sep [x] = x"
| "join sep (x # y # r) = x @ sep @ join sep (y # r)"

definition str_dict :: "(string \<times> real) list \<Rightarrow> sym list" where
  "str_dict d = Ch CHR ''{'' # join [Ch CHR '','', Ch CHR '' ''] (map str_entry d) @ [Ch CHR ''}'']"

definition replace_dq :: "sym list \<Rightarrow> sym list" where
  "replace_dq t = filter (\<lambda>s. s \<noteq> Ch dq) t"

text \<open>
  \<^verbatim>\<open>eval\<close> on the text of a dict display whose keys are single-quoted string literals
  and whose values are float literals, the only texts \<^verbatim>\<open>str\<close> of a tally with
  string keys produces when no key is printed in double quotes. Any other text is outside
  this fragment and is answered with SyntaxError, which is Python's usual but not its only
  answer there. \<open>unesc\<close> decodes the character after a backslash, \<open>str_body\<close> reads a
  literal after its opening quote up to the closing quote.
\<close>

definition unesc :: "char \<Rightarrow> char option" where
  "unesc e =
     (if e = bs then Some bs
      else if e = sq then Some sq
      else if e = dq then Some dq
      else if e = CHR ''n'' then Some (CHR 0x0A)
      else if e = CHR ''r'' then Some (CHR 0x0D)
      else if e = CHR ''t'' then Some (CHR 0x09)
      else None)"

definition consc :: "char \<Rightarrow> (string \<times> sym list) option \<Rightarrow> (string \<times> sym list) option" where
  "consc c r = (case r of None \<Rightarrow> None | Some (k, rest) \<Rightarrow> Some (c # k, rest))"

fun str_body :: "sym list \<Rightarrow> (string \<times> sym list) option" where
  "str_body [] = None"
| "str_body (Num v # r) = None"
| "str_body (Ch c # r) =
     (if c = sq then Some ([], r)
      else if c = CHR 0x0A then None
      else if c = bs then
        (case r of
           Ch e # r1 \<Rightarrow>
             (if e = CHR ''x'' then
                (case r1 of
                   Ch h # Ch l # r2 \<Rightarrow>
                     (case (unhex h, unhex l) of
                        (Some a, Some b) \<Rightarrow> consc (char_of (16 * a + b)) (str_body r2)
                      | _ \<Rightarrow> None)
                 | _ \<Rightarrow> None)
              else (case unesc e of Some d \<Rightarrow> consc d (str_body r1) | None \<Rightarrow> None))
         | _ \<Rightarrow> None)
      else consc c (str_body r))"

lemma str_body_shorter: "str_body s = Some (k, r) \<Longrightarrow> length r < length s"
proof (induction s arbitrary: k r rule: str_body.induct)
  case 1
  then show ?case by simp
next
  case (2 v r)
  then show ?case by simp
next
  case (3 c r)
  then show ?case
    by (auto simp: consc_def split: if_splits list.splits sym.splits option.splits prod.splits)
      fastforce+
qed

function entries :: "sym list \<Rightarrow> (string \<times> real) list option" where
  "entries t =
     (case t of
        Ch q # r \<Rightarrow>
          (if q = sq then
             (case str_body r of
                Some (k, Ch c1 # Ch c2 # Num v # r1) \<Rightarrow>
                  (if c1 = CHR '':'' \<and> c2 = CHR '' '' then
                     (case r1 of
                        [Ch c3] \<Rightarrow> if c3 = CHR ''}'' then Some [(k, v)] else None
                      | Ch c3 # Ch c4 # r2 \<Rightarrow>
                          if c3 = CHR '','' \<and> c4 = CHR '' '' then
                            (case entries r2 of None \<Rightarrow> None | Some es \<Rightarrow> Some ((k, v) # es))
                          else None
                      | _ \<Rightarrow> None)
                   else None)
              | _ \<Rightarrow> None)
           else None)
      | _ \<Rightarrow> None)"
  by pat_completeness auto
termination
  by (relation "measure length") (auto dest: str_body_shorter)

definition eval_dict :: "sym list \<Rightarrow> error + (string \<times> real) list" where
  "eval_dict t =
     (case t of
        Ch c # r \<Rightarrow>
          (if c = CHR ''{'' then
             (if r = [Ch CHR ''}''] then Inr []
              else (case entries r of
                      None \<Rightarrow> Inl SyntaxError
                    | Some es \<Rightarrow> Inr (fold (\<lambda>e d. AList.update (fst e) (snd e) d) es [])))
           else Inl SyntaxError)
      | _ \<Rightarrow> Inl SyntaxError)"

declare entries.simps [simp del]

section \<open>The object, its tables and the weight matrix\<close>

text \<open>
  The \<^verbatim>\<open>data\<close> argument of \<^verbatim>\<open>__init__\<close>, \<^verbatim>\<open>gen_weights_mat\<close> and
  \<^verbatim>\<open>gen_weights_list\<close> is \<^verbatim>\<open>None\<close>, a dict of sheets as \<^verbatim>\<open>pd.read_excel\<close>
  with \<^verbatim>\<open>sheet_name=None\<close> returns it, or a single DataFrame. Comparing a DataFrame
  with \<^verbatim>\<open>None\<close> by \<^verbatim>\<open>==\<close> or \<^verbatim>\<open>!=\<close> is elementwise and gives a DataFrame,
  whose truth value pandas refuses with ValueError; a dict compares unequal to \<^verbatim>\<open>None\<close>.
\<close>

datatype 'f arg = NoneArg | DictArg "(string \<times> 'f) list" | FrameArg 'f

definition eq_None :: "'f arg \<Rightarrow> error + bool" where
  "eq_None d = (case d of NoneArg \<Rightarrow> Inr True | DictArg s \<Rightarrow> Inr False | FrameArg f \<Rightarrow> Inl ValueError)"

definition ne_None :: "'f arg \<Rightarrow> error + bool" where
  "ne_None d = (case d of NoneArg \<Rightarrow> Inr False | DictArg s \<Rightarrow> Inr True | FrameArg f \<Rightarrow> Inl ValueError)"

text \<open>
  The attributes of a \<^verbatim>\<open>FcmDataProcessor\<close>. \<open>causal_weights\<close> is the final square
  table: its labels and its cells. The empty DataFrame that \<^verbatim>\<open>__init__\<close> stores when
  no data is given iterates as no sheet at all, like the empty dict, and is modelled by it.
  Attributes that a method has not yet set are empty.
\<close>

record 'f fcm =
  data :: "(string \<times> 'f) list"
  universe_of :: array
  expert_data :: "((string \<times> string) \<times> (string \<times> real) list) list"
  aggregated :: "(string \<times> array) list"
  terms :: "(string \<times> array) list"
  causal_weights :: "string list \<times> (string \<times> string \<Rightarrow> real)"

text \<open>Lines 24--30.\<close>

definition init :: "'f arg \<Rightarrow> error + 'f fcm" where
  "init d =
     rbind (ne_None d) (\<lambda>given.
       Inr \<lparr>data = (if given then (case d of DictArg s \<Rightarrow> s | _ \<Rightarrow> []) else []),
            universe_of = universe, expert_data = [], aggregated = [], terms = [],
            causal_weights = ([], \<lambda>p. 0)\<rparr>)"

text \<open>
  The weight matrix while it is filled: its labels (index and columns alike) and the cells
  written so far; a cell not written is NaN. \<^verbatim>\<open>weight_matrix.loc[a][c] = v\<close> raises
  KeyError when \<open>a\<close> is no row label; it writes the cell when \<open>c\<close> is a column and
  otherwise only enlarges the temporary row, leaving the table as it was.
  \<^verbatim>\<open>fillna(0)\<close> reads every unwritten cell as 0.
\<close>

type_synonym weight_matrix = "string list \<times> (string \<times> string \<rightharpoonup> real)"

definition wm_set :: "weight_matrix \<Rightarrow> string \<Rightarrow> string \<Rightarrow> real \<Rightarrow> error + weight_matrix" where
  "wm_set w a c v =
     (if a \<notin> set (fst w) then Inl (KeyError a)
      else if c \<in> set (fst w) then Inr (fst w, (snd w)((a, c) \<mapsto> v))
      else Inr w)"

definition fillna0 :: "weight_matrix \<Rightarrow> string list \<times> (string \<times> string \<Rightarrow> real)" where
  "fillna0 w = (fst w, \<lambda>p. case snd w p of None \<Rightarrow> 0 | Some v \<Rightarrow> v)"

text \<open>\<^verbatim>\<open>unique()\<close>: the distinct values in order of first appearance.\<close>

definition unique :: "'a list \<Rightarrow> 'a list" where
  "unique xs = fold (\<lambda>x acc. if x \<in> set acc then acc else acc @ [x]) xs []"

text \<open>A \<^verbatim>\<open>for\<close> loop whose body may raise: the first error ends the loop.\<close>

fun for_each :: "('a \<Rightarrow> 's \<Rightarrow> error + 's) \<Rightarrow> 'a list \<Rightarrow> 's \<Rightarrow> error + 's" where
  "for_each body [] s = Inr s"
| "for_each body (x # xs) s = rbind (body x s) (for_each body xs)"

text \<open>What a run accumulates: the two diagnostic dicts and the weight matrix.\<close>

record run =
  r_expert_data :: "((string \<times> string) \<times> (string \<times> real) list) list"
  r_aggregated :: "(string \<times> array) list"
  r_weights :: weight_matrix

definition pair_key :: "string \<Rightarrow> string \<Rightarrow> string" where
  "pair_key a c = a @ '' '' @ c"

text \<open>Lines 233--237 and 304--308: activate, aggregate, record the aggregated set,
  defuzzify and write the cell.\<close>

definition infer ::
  "routines \<Rightarrow> array \<Rightarrow> (string \<times> array) list \<Rightarrow> string \<Rightarrow> string \<Rightarrow> string
     \<Rightarrow> (string \<times> real) list \<Rightarrow> run \<Rightarrow> error + run" where
  "infer lib u mf method a c activation_parameter s =
     rbind (activate activation_parameter mf) (\<lambda>activated.
       rbind (aggregate activated) (\<lambda>aggr.
         let s1 = s\<lparr>r_aggregated := AList.update (pair_key a c) aggr (r_aggregated s)\<rparr> in
         rbind (defuzzify lib u aggr method) (\<lambda>v.
           rbind (wm_set (r_weights s1) a c v) (\<lambda>w. Inr (s1\<lparr>r_weights := w\<rparr>)))))"

section \<open>gen_weights_mat\<close>

text \<open>
  An expert's table in Mode ``matrix'': the column labels, and the rows, each with its
  index label and its cells by column; a cell is a term label or NaN (\<open>None\<close>). Column
  labels are distinct. \<^verbatim>\<open>pd.concat\<close> refuses an empty list with ValueError, takes the
  union of the columns in order of appearance and stacks the rows, a row having NaN in
  the columns its own table lacks.
\<close>

record mframe =
  columns :: "string list"
  rows :: "(string \<times> (string \<Rightarrow> string option)) list"

definition own_cells :: "mframe \<Rightarrow> string \<times> (string \<Rightarrow> string option) \<Rightarrow> string \<times> (string \<Rightarrow> string option)" where
  "own_cells f r = (fst r, \<lambda>c. if c \<in> set (columns f) then snd r c else None)"

definition concat_frames :: "mframe list \<Rightarrow> error + mframe" where
  "concat_frames fs =
     (if fs = [] then Inl ValueError
      else Inr \<lparr>columns = unique (concat (map columns fs)),
                rows = concat (map (\<lambda>f. map (own_cells f) (rows f)) fs)\<rparr>)"

text \<open>
  Line 227. \<^verbatim>\<open>flat_data.loc[antecedent]\<close> raises KeyError when no row has that label.
  With one such row it is that row, and \<^verbatim>\<open>[consequent]\<close> is a single cell:
  a NaN has no attribute \<^verbatim>\<open>index\<close> (AttributeError), and for a string
  \<^verbatim>\<open>pd.crosstab\<close> is handed a scalar and a bound method and raises ValueError. With
  several rows it is a table, and \<^verbatim>\<open>[consequent]\<close> is the column of their cells.
\<close>

definition pair_cells :: "mframe \<Rightarrow> string \<Rightarrow> string \<Rightarrow> error + string option list" where
  "pair_cells flat a c =
     (case filter (\<lambda>r. fst r = a) (rows flat) of
        [] \<Rightarrow> Inl (KeyError a)
      | [r] \<Rightarrow> (case snd r c of None \<Rightarrow> Inl AttributeError | Some t \<Rightarrow> Inl ValueError)
      | sel \<Rightarrow> Inr (map (\<lambda>r. snd r c) sel))"

text \<open>\<^verbatim>\<open>pd.crosstab(...) / len(data.keys())\<close>, read as the dict of its one column: the
  distinct terms among the cells in sorted order, NaN dropped, each with its count
  divided by the number of sheets.\<close>

definition present :: "string option list \<Rightarrow> string list" where
  "present cells = concat (map (\<lambda>v. case v of None \<Rightarrow> [] | Some t \<Rightarrow> [t]) cells)"

definition crosstab :: "string option list \<Rightarrow> nat \<Rightarrow> (string \<times> real) list" where
  "crosstab cells n =
     map (\<lambda>t. (t, real (count_list cells (Some t)) / real n)) (sort (remdups (present cells)))"

text \<open>The body of the two loops, lines 227--237.\<close>

definition mat_pair ::
  "routines \<Rightarrow> array \<Rightarrow> (string \<times> array) list \<Rightarrow> string \<Rightarrow> mframe \<Rightarrow> nat
     \<Rightarrow> string \<Rightarrow> string \<Rightarrow> run \<Rightarrow> error + run" where
  "mat_pair lib u mf method flat n a c s =
     rbind (pair_cells flat a c) (\<lambda>cells.
       let crostab = crosstab cells n in
       if length crostab \<noteq> 0 then
         rbind (eval_dict (replace_dq (str_dict crostab))) (\<lambda>activation_parameter.
           infer lib u mf method a c activation_parameter
             (s\<lparr>r_expert_data := AList.update (a, c) activation_parameter (r_expert_data s)\<rparr>))
       else Inr s)"

text \<open>Lines 202--239. \<open>check\<close> is \<^verbatim>\<open>consistency_check\<close> of
  \<^verbatim>\<open>process_functions\<close>, which is not among the sources: a parameter, called with the
  data and the format name, that returns or raises.\<close>

definition mat_core ::
  "routines \<Rightarrow> mframe fcm \<Rightarrow> (string \<times> mframe) list \<Rightarrow> string list \<Rightarrow> string \<Rightarrow> error + mframe fcm" where
  "mat_core lib self d linguistic_terms method =
     rbind (concat_frames (map snd d)) (\<lambda>flat.
       let labels = unique (map fst (rows flat)) in
       rbind (automf (universe_of self) linguistic_terms) (\<lambda>mf.
         rbind (for_each (\<lambda>antecedent.
                  for_each (\<lambda>consequent.
                    mat_pair lib (universe_of self) mf method flat (length d) antecedent consequent)
                    (columns flat))
                  (columns flat)
                  \<lparr>r_expert_data = [], r_aggregated = [], r_weights = (labels, Map.empty)\<rparr>)
           (\<lambda>s. Inr (self\<lparr>expert_data := r_expert_data s, aggregated := r_aggregated s,
                          terms := mf, causal_weights := fillna0 (r_weights s)\<rparr>))))"

definition gen_weights_mat ::
  "((string \<times> mframe) list \<Rightarrow> string \<Rightarrow> error + unit) \<Rightarrow> routines \<Rightarrow> mframe fcm \<Rightarrow> mframe arg
     \<Rightarrow> string list \<Rightarrow> string \<Rightarrow> error + mframe fcm" where
  "gen_weights_mat check lib self d linguistic_terms method =
     rbind (eq_None d) (\<lambda>absent.
       if absent then mat_core lib self (data self) linguistic_terms method
       else (case d of
               DictArg sheets \<Rightarrow>
                 rbind (check sheets ''Matrix'') (\<lambda>_. mat_core lib self sheets linguistic_terms method)
             | _ \<Rightarrow> Inl ValueError))"

section \<open>gen_weights_list\<close>

text \<open>
  An expert's table in Mode ``list'': the columns other than \<^verbatim>\<open>From\<close> and
  \<^verbatim>\<open>To\<close>, one per term, and the rows, each with its two concepts and its numeric
  codes by term column, NaN being \<open>None\<close>.
\<close>

record lframe =
  term_columns :: "string list"
  lrows :: "(string \<times> string \<times> (string \<Rightarrow> real option)) list"

definition lown_cells ::
  "lframe \<Rightarrow> string \<times> string \<times> (string \<Rightarrow> real option) \<Rightarrow> string \<times> string \<times> (string \<Rightarrow> real option)" where
  "lown_cells f r = (fst r, fst (snd r), \<lambda>c. if c \<in> set (term_columns f) then snd (snd r) c else None)"

definition concat_lframes :: "lframe list \<Rightarrow> error + lframe" where
  "concat_lframes fs =
     (if fs = [] then Inl ValueError
      else Inr \<lparr>term_columns = unique (concat (map term_columns fs)),
                lrows = concat (map (\<lambda>f. map (lown_cells f) (lrows f)) fs)\<rparr>)"

text \<open>
  Lines 280--282. For a group \<open>(From, To)\<close> and a term column, \<open>codes\<close> are the
  non-NaN codes of the group's rows. \<^verbatim>\<open>count() / len(data.keys())\<close> is their number
  over the number of sheets, \<^verbatim>\<open>mean()\<close> their mean, NaN when there is none; the
  product is NaN then, and \<^verbatim>\<open>fillna(0)\<close> makes it 0. \<^verbatim>\<open>groupby\<close> sorts the groups.
\<close>

definition codes :: "lframe \<Rightarrow> string \<times> string \<Rightarrow> string \<Rightarrow> real list" where
  "codes flat g t =
     concat (map (\<lambda>r. if (fst r, fst (snd r)) = g
                        then (case snd (snd r) t of None \<Rightarrow> [] | Some v \<Rightarrow> [v]) else [])
                 (lrows flat))"

definition final :: "lframe \<Rightarrow> nat \<Rightarrow> string \<times> string \<Rightarrow> string \<Rightarrow> real" where
  "final flat n g t =
     (let vs = codes flat g t in
      if vs = [] then 0
      else (sum_list vs / real (length vs)) * (real (length vs) / real n))"

definition groups :: "lframe \<Rightarrow> (string \<times> string) list" where
  "groups flat = sort (remdups (map (\<lambda>r. (fst r, fst (snd r))) (lrows flat)))"

text \<open>
  Lines 297--300. \<^verbatim>\<open>str(np.sign(v))\<close> is one of three texts, from which
  \<^verbatim>\<open>strip('1\0.0\.\0')\<close> removes, at both ends, the characters \<open>1\<close>, NUL, the dot,
  \<open>0\<close> and the backslash. \<^verbatim>\<open>float(str(v).strip('-'))\<close> is the absolute value.
\<close>

definition strip :: "string \<Rightarrow> string \<Rightarrow> string" where
  "strip chars s = rev (dropWhile (\<lambda>c. c \<in> set chars) (rev (dropWhile (\<lambda>c. c \<in> set chars) s)))"

definition sign_text :: "real \<Rightarrow> string" where
  "sign_text v = (if 0 < v then ''1.0'' else if v < 0 then ''-1.0'' else ''0.0'')"

definition sign_prefix :: "real \<Rightarrow> string" where
  "sign_prefix v = strip [CHR ''1'', CHR 0x00, CHR ''.'', CHR ''0'', CHR 0x5C, CHR ''.'', CHR 0x00] (sign_text v)"

fun attach_signs :: "(string \<times> real) list \<Rightarrow> (string \<times> real) list \<Rightarrow> (string \<times> real) list" where
  "attach_signs activation_parameter [] = activation_parameter"
| "attach_signs activation_parameter ((t, v) # rest) =
     attach_signs (AList.update (sign_prefix v @ t) \<bar>v\<bar> activation_parameter) rest"

text \<open>The body of the loop over the groups, lines 292--308.\<close>

definition list_pair ::
  "routines \<Rightarrow> array \<Rightarrow> (string \<times> array) list \<Rightarrow> string \<Rightarrow> lframe \<Rightarrow> nat
     \<Rightarrow> string \<times> string \<Rightarrow> run \<Rightarrow> error + run" where
  "list_pair lib u mf method flat n pair s =
     (let term_set = map (\<lambda>t. (t, final flat n pair t)) (term_columns flat);
          activation_parameter = attach_signs [] term_set;
          s1 = s\<lparr>r_expert_data := AList.update pair activation_parameter (r_expert_data s)\<rparr>
      in if \<not> list_all (\<lambda>x. x = 0) (map snd activation_parameter)
         then infer lib u mf method (fst pair) (snd pair) activation_parameter s1
         else Inr s1)"

definition list_core ::
  "routines \<Rightarrow> lframe fcm \<Rightarrow> (string \<times> lframe) list \<Rightarrow> string list \<Rightarrow> string \<Rightarrow> error + lframe fcm" where
  "list_core lib self d linguistic_terms method =
     rbind (concat_lframes (map snd d)) (\<lambda>flat.
       let labels = unique (map fst (lrows flat)) in
       rbind (automf (universe_of self) linguistic_terms) (\<lambda>mf.
         rbind (for_each (list_pair lib (universe_of self) mf method flat (length d))
                  (groups flat)
                  \<lparr>r_expert_data = [], r_aggregated = [], r_weights = (labels, Map.empty)\<rparr>)
           (\<lambda>s. Inr (self\<lparr>expert_data := r_expert_data s, aggregated := r_aggregated s,
                          terms := mf, causal_weights := fillna0 (r_weights s)\<rparr>))))"

definition gen_weights_list ::
  "((string \<times> lframe) list \<Rightarrow> string \<Rightarrow> error + unit) \<Rightarrow> routines \<Rightarrow> lframe fcm \<Rightarrow> lframe arg
     \<Rightarrow> string list \<Rightarrow> string \<Rightarrow> error + lframe fcm" where
  "gen_weights_list check lib self d linguistic_terms method =
     rbind (eq_None d) (\<lambda>absent.
       if absent then list_core lib self (data self) linguistic_terms method
       else (case d of
               DictArg sheets \<Rightarrow>
                 rbind (check sheets ''List'') (\<lambda>_. list_core lib self sheets linguistic_terms method)
             | _ \<Rightarrow> Inl ValueError))"

section \<open>Small runs used as examples\<close>

text \<open>Two experts over the concepts A and B, both assigning H to the pair (A, B) and
  nothing to (B, A); an object whose universe has three samples. The runs use the
  centroid, so the open routines of the library are never called; \<open>w_lib\<close> fills them
  in.\<close>

definition w_lib :: routines where
  "w_lib = \<lparr>bisector_of = (\<lambda>x m. Inr 0), mom_of = (\<lambda>x m. Inr 0),
            som_of = (\<lambda>x m. Inr 0), lom_of = (\<lambda>x m. Inr 0)\<rparr>"

definition w_frame :: mframe where
  "w_frame = \<lparr>columns = [''A'', ''B''], rows = [(''A'', [''B'' \<mapsto> ''H'']), (''B'', Map.empty)]\<rparr>"

definition w_self :: "mframe fcm" where
  "w_self = \<lparr>data = [(''e1'', w_frame), (''e2'', w_frame)], universe_of = [-1, 1 / 2, 1],
             expert_data = [], aggregated = [], terms = [], causal_weights = ([], \<lambda>p. 0)\<rparr>"

text \<open>Two experts over the four concepts A, ``B C'', ``A B'' and C, both assigning H to the
  pair (``A B'', C) and nothing else. The pairs (A, ``B C'') and (``A B'', C) are joined
  to the same key ``A B C''.\<close>

definition k_frame :: mframe where
  "k_frame = \<lparr>columns = [''A'', ''B C'', ''A B'', ''C''],
              rows = [(''A'', Map.empty), (''B C'', Map.empty),
                      (''A B'', [''C'' \<mapsto> ''H'']), (''C'', Map.empty)]\<rparr>"

definition k_self :: "mframe fcm" where
  "k_self = \<lparr>data = [(''e1'', k_frame), (''e2'', k_frame)], universe_of = [-1, 1 / 2, 1],
             expert_data = [], aggregated = [], terms = [], causal_weights = ([], \<lambda>p. 0)\<rparr>"

subsection \<open>Auxiliary predicate: an array of a given length without negative entries\<close>

definition good :: "nat \<Rightarrow> array \<Rightarrow> bool" where
  "good n a = (length a = n \<and> (\<forall>y \<in> set a. 0 \<le> y))"

(*PROPERTIES*)

section \<open>Properties of aggregate\<close>

lemma fmax_same: "length x = length y \<Longrightarrow> fmax x y = Inr (map2 max x y)"
  by (simp add: fmax_def)

lemma reduce_fmax_same:
  "length x = n \<Longrightarrow> \<forall>y\<in>set ys. length y = n \<Longrightarrow>
   reduce_fmax x ys = Inr (map (\<lambda>j. Max (insert (x ! j) ((\<lambda>y. y ! j) ` set ys))) [0..<n])"
proof (induction ys arbitrary: x)
  case Nil
  then show ?case by (auto simp: map_nth)
next
  case (Cons y ys)
  have len: "length (map2 max x y) = n" using Cons.prems by simp
  have "reduce_fmax x (y # ys) = reduce_fmax (map2 max x y) ys"
    using Cons.prems by (simp add: fmax_same rbind_def)
  also have "\<dots> = Inr (map (\<lambda>j. Max (insert (map2 max x y ! j) ((\<lambda>y. y ! j) ` set ys))) [0..<n])"
    using Cons.IH[OF len] Cons.prems by simp
  also have "\<dots> = Inr (map (\<lambda>j. Max (insert (x ! j) ((\<lambda>y. y ! j) ` set (y # ys)))) [0..<n])"
  proof -
    have "Max (insert (map2 max x y ! j) ((\<lambda>y. y ! j) ` set ys))
        = Max (insert (x ! j) ((\<lambda>y. y ! j) ` set (y # ys)))" if "j < n" for j
    proof -
      have "map2 max x y ! j = max (x ! j) (y ! j)" using that Cons.prems by simp
      then show ?thesis
        by (cases "ys = []") (simp_all add: max.assoc)
    qed
    then show ?thesis by simp
  qed
  finally show ?case .
qed

text \<open>
  Claim C6. \<^verbatim>\<open>aggregate\<close> on an empty collection of activated sets fails: the
  spec's EmptyActivation is the TypeError that \<^verbatim>\<open>functools.reduce\<close> raises on an
  empty sequence without an initial value. On a non-empty collection of arrays of one
  length it returns their elementwise maximum.
\<close>

theorem aggregate_empty_or_maximum:
  "aggregate [] = Inl TypeError \<and>
   (activated \<noteq> [] \<and> (\<forall>a \<in> snd ` set activated. length a = n) \<longrightarrow>
      aggregate activated = Inr (map (\<lambda>j. Max ((\<lambda>a. a ! j) ` snd ` set activated)) [0..<n]))"
proof (intro conjI impI)
  show "aggregate [] = Inl TypeError" by (simp add: aggregate_def)
next
  assume h: "activated \<noteq> [] \<and> (\<forall>a \<in> snd ` set activated. length a = n)"
  then obtain p rest where a: "activated = p # rest" by (cases activated) auto
  have "reduce_fmax (snd p) (map snd rest)
      = Inr (map (\<lambda>j. Max (insert (snd p ! j) ((\<lambda>y. y ! j) ` set (map snd rest)))) [0..<n])"
    using h a by (intro reduce_fmax_same) auto
  then show "aggregate activated = Inr (map (\<lambda>j. Max ((\<lambda>a. a ! j) ` snd ` set activated)) [0..<n])"
    using a by (simp add: aggregate_def)
qed

theorem aggregate_empty_or_maximum_witness:
  "aggregate [] = Inl TypeError \<and>
   aggregate [(''H'', [0, 1 / 2]), (''VH'', [1 / 4, 0])] = Inr [1 / 4, 1 / 2]"
  using aggregate_empty_or_maximum [of "[(''H'', [0, 1 / 2]), (''VH'', [1 / 4, 0])]" 2]
  by (simp add: upt_rec)

section \<open>Properties of automf\<close>

lemma amin_amax_nonempty:
  assumes "u \<noteq> []"
  shows "\<exists>lo hi. amin u = Inr lo \<and> amax u = Inr hi \<and> lo \<le> hi"
proof -
  obtain x xs where u: "u = x # xs" using assms by (cases u) auto
  have "fold min xs x = Min (set (x # xs))" by (rule Min.set_eq_fold[symmetric])
  moreover have "fold max xs x = Max (set (x # xs))" by (rule Max.set_eq_fold[symmetric])
  moreover have "Min (set (x # xs)) \<le> x" "x \<le> Max (set (x # xs))" by auto
  ultimately show ?thesis using u by (simp add: amin_def amax_def del: set_simps)
qed

lemma length_linspace [simp]: "length (linspace a b k) = k"
  by (simp add: linspace_def)

lemma nth_linspace:
  "i < k \<Longrightarrow> linspace a b k ! i = (if k = 1 then a else a + real i * ((b - a) / real (k - 1)))"
  by (auto simp: linspace_def)

lemma linspace_bounds:
  assumes "a \<le> b" "i < k"
  shows "a \<le> linspace a b k ! i \<and> linspace a b k ! i \<le> b"
proof (cases "k = 1")
  case True
  then show ?thesis using assms by (simp add: nth_linspace)
next
  case False
  define t where "t = real i / real (k - 1)"
  have k: "0 < real (k - 1)" using False assms(2) by simp
  have t: "0 \<le> t" "t \<le> 1" using assms(2) k by (simp_all add: t_def)
  have v: "linspace a b k ! i = a + t * (b - a)"
    using False assms(2) by (simp add: nth_linspace t_def)
  have "0 \<le> t * (b - a)" using t(1) assms(1) by simp
  moreover have "t * (b - a) \<le> 1 * (b - a)" using t(2) assms(1) by (intro mult_right_mono) auto
  ultimately show ?thesis using v by simp
qed

lemma linspace_last:
  assumes "2 \<le> k"
  shows "linspace a b k ! (k - 1) = b"
proof -
  have "real (k - 1) * ((b - a) / real (k - 1)) = b - a" using assms by simp
  then show ?thesis using assms by (simp add: nth_linspace)
qed

lemma length_centers [simp]: "length (centers n) = 2 * (n div 2)"
  by (simp add: centers_def centers_pos_def centers_neg_def)

lemma abcs_ok:
  assumes h: "2 \<le> n div 2" and u: "u \<noteq> []"
  shows "\<exists>l. abcs u n = Inr l \<and> length l = 2 * (n div 2) \<and>
             (\<forall>i < 2 * (n div 2). ok_abc (centers n ! i) (l ! i))"
proof -
  define k where "k = n div 2"
  have k2: "2 \<le> k" using h by (simp add: k_def)
  have kn: "2 * k \<le> n" unfolding k_def by simp
  obtain lo hi where lohi: "amin u = Inr lo" "amax u = Inr hi" "lo \<le> hi"
    using amin_amax_nonempty[OF u] by blast
  define w where "w = ((hi - lo) / 2) / (((real n / 2) - 1) / 2)"
  have n4: "4 \<le> real n" using kn k2 by linarith
  have w0: "0 \<le> w" unfolding w_def using lohi(3) n4 by (intro divide_nonneg_nonneg) auto
  have ws: "widths u n = Inr (replicate n w)"
    by (simp add: widths_def lohi rbind_def w_def Let_def)
  define l0 where "l0 = abcs0 (centers n) (replicate n w)"
  have len0: "length l0 = 2 * k" using kn by (simp add: l0_def abcs0_def k_def)
  have l0i: "l0 ! i = (centers n ! i - w / 2, centers n ! i, centers n ! i + w / 2)" if "i < 2 * k" for i
    using that kn by (simp add: l0_def abcs0_def k_def)
  define cp1 where "cp1 = centers_pos n ! 1"
  define cn2 where "cn2 = centers_neg n ! (k - 2)"
  have cp1: "item (centers_pos n) (Suc 0) = Inr cp1" using k2 by (simp add: item_def centers_pos_def cp1_def k_def)
  have cn2: "item_from_end (centers_neg n) 2 = Inr cn2"
    using k2 by (simp add: item_from_end_def centers_neg_def cn2_def k_def)
  define l2 where "l2 = l0[k := (1 / 1000, 1 / 1000, cp1), k - 1 := (cn2, - (1 / 1000), - (1 / 1000))]"
  have i1: "item l0 k = Inr (l0 ! k)" using k2 len0 by (simp add: item_def)
  have i2: "item (l0[k := (1 / 1000, 1 / 1000, cp1)]) (k - Suc 0)
              = Inr (l0[k := (1 / 1000, 1 / 1000, cp1)] ! (k - Suc 0))"
    using k2 len0 by (simp add: item_def)
  have res: "abcs u n = Inr l2"
    by (simp add: abcs_def ws rbind_def Let_def cp1 cn2 l2_def k_def[symmetric]
        i1[unfolded l0_def] i2[unfolded l0_def] l0_def)
  have cp1v: "1 / 1000 \<le> cp1"
    unfolding cp1_def centers_pos_def using k2 linspace_bounds[of "1 / 1000" 1 1 k] by (simp add: k_def)
  have cn2v: "cn2 \<le> - (1 / 1000)"
    unfolding cn2_def centers_neg_def using k2 linspace_bounds[of "-1" "- (1 / 1000)" "k - 2" k]
    by (simp add: k_def)
  have ck: "centers n ! k = 1 / 1000"
    using k2 by (simp add: centers_def nth_append centers_neg_def centers_pos_def nth_linspace k_def[symmetric])
  have ck1: "centers n ! (k - 1) = - (1 / 1000)"
    using k2 linspace_last[of k "-1" "- (1 / 1000)"]
    by (simp add: centers_def nth_append centers_neg_def k_def[symmetric])
  have "ok_abc (centers n ! i) (l2 ! i)" if "i < 2 * k" for i
  proof -
    consider "i = k - 1" | "i = k" | "i \<noteq> k - 1" "i \<noteq> k" by blast
    then show ?thesis
    proof cases
      case 1
      then show ?thesis using k2 len0 cn2v ck1 by (simp add: l2_def ok_abc_def)
    next
      case 2
      then show ?thesis using k2 len0 cp1v ck by (simp add: l2_def ok_abc_def)
    next
      case 3
      then show ?thesis using that w0 l0i[OF that] by (simp add: l2_def ok_abc_def)
    qed
  qed
  then show ?thesis using res len0 by (auto simp: l2_def k_def)
qed


lemma abcs_small:
  assumes "n div 2 < 2" "u \<noteq> []"
  shows "abcs u n = Inl IndexError"
proof -
  obtain lo hi where "amin u = Inr lo" "amax u = Inr hi"
    using amin_amax_nonempty[OF assms(2)] by blast
  then obtain ws where ws: "widths u n = Inr ws" by (simp add: widths_def rbind_def Let_def)
  have "item (centers_pos n) 1 = Inl IndexError"
    using assms(1) by (simp add: item_def centers_pos_def)
  then show ?thesis by (simp add: abcs_def ws rbind_def Let_def)
qed

lemma update_fresh: "k \<notin> fst ` set al \<Longrightarrow> AList.update k v al = al @ [(k, v)]"
  by (induction al) auto

lemma repopulate_ok:
  assumes "\<forall>z \<in> set zs. case snd z of (a, b, c) \<Rightarrow> a \<le> b \<and> b \<le> c"
    and "distinct (map fst zs)" and "fst ` set acc \<inter> fst ` set zs = {}"
  shows "repopulate u acc zs = Inr (acc @ map (\<lambda>(t, a, b, c). (t, map (trimf1 a b c) u)) zs)"
  using assms
proof (induction zs arbitrary: acc)
  case Nil
  then show ?case by simp
next
  case (Cons z zs)
  obtain t a b c where z: "z = (t, a, b, c)" by (cases z) auto
  have abc: "a \<le> b \<and> b \<le> c" using Cons.prems(1) z by simp
  have fresh: "t \<notin> fst ` set acc" using Cons.prems(3) z by auto
  have step: "repopulate u acc (z # zs) = repopulate u (acc @ [(t, map (trimf1 a b c) u)]) zs"
    using abc by (simp add: z trimf_def rbind_def update_fresh[OF fresh])
  have "repopulate u (acc @ [(t, map (trimf1 a b c) u)]) zs
      = Inr ((acc @ [(t, map (trimf1 a b c) u)]) @ map (\<lambda>(t, a, b, c). (t, map (trimf1 a b c) u)) zs)"
  proof (rule Cons.IH)
    show "\<forall>z \<in> set zs. case snd z of (a, b, c) \<Rightarrow> a \<le> b \<and> b \<le> c" using Cons.prems(1) by simp
    show "distinct (map fst zs)" using Cons.prems(2) by simp
    show "fst ` set (acc @ [(t, map (trimf1 a b c) u)]) \<inter> fst ` set zs = {}"
      using Cons.prems(2,3) z by auto
  qed
  then show ?case using step z by simp
qed

lemma automf_ok:
  assumes h: "2 \<le> length ts div 2" and u: "u \<noteq> []"
    and d: "distinct (take (2 * (length ts div 2)) ts)"
  shows "\<exists>l. length l = 2 * (length ts div 2) \<and>
             (\<forall>i < 2 * (length ts div 2). ok_abc (centers (length ts) ! i) (l ! i)) \<and>
             automf u ts = Inr (map (\<lambda>(t, a, b, c). (t, map (trimf1 a b c) u)) (zip ts l))"
proof -
  define n where "n = length ts"
  obtain l where l: "abcs u n = Inr l" "length l = 2 * (n div 2)"
      "\<forall>i < 2 * (n div 2). ok_abc (centers n ! i) (l ! i)"
    using abcs_ok[OF h[folded n_def] u] by blast
  have le: "2 * (n div 2) \<le> length ts" by (simp add: n_def)
  have zmap: "map fst (zip ts l) = take (2 * (n div 2)) ts"
    using l(2) le by (simp add: take_map[symmetric] map_fst_zip_take min_def)
  have ok: "\<forall>z \<in> set (zip ts l). case snd z of (a, b, c) \<Rightarrow> a \<le> b \<and> b \<le> c"
  proof
    fix z assume "z \<in> set (zip ts l)"
    then obtain i where i: "i < length l" "l ! i = snd z"
      by (auto simp: set_zip)
    then have "ok_abc (centers n ! i) (snd z)" using l(2,3) by auto
    then show "case snd z of (a, b, c) \<Rightarrow> a \<le> b \<and> b \<le> c"
      by (auto simp: ok_abc_def)
  qed
  have "repopulate u [] (zip ts l) = Inr ([] @ map (\<lambda>(t, a, b, c). (t, map (trimf1 a b c) u)) (zip ts l))"
    using ok d by (intro repopulate_ok) (simp_all add: zmap n_def)
  then have "automf u ts = Inr (map (\<lambda>(t, a, b, c). (t, map (trimf1 a b c) u)) (zip ts l))"
    by (simp add: automf_def l(1)[unfolded n_def] rbind_def)
  then show ?thesis using l(2,3) by (auto simp: n_def)
qed

lemma trimf1_range: "a \<le> b \<Longrightarrow> b \<le> c \<Longrightarrow> 0 \<le> trimf1 a b c x \<and> trimf1 a b c x \<le> 1"
  by (auto simp: trimf1_def)

lemma trimf1_apex: "a \<le> b \<Longrightarrow> b \<le> c \<Longrightarrow> trimf1 a b c x = 1 \<longleftrightarrow> x = b"
  by (auto simp: trimf1_def)

lemma trimf1_rising:
  assumes "a \<le> b" "b \<le> c" "x \<le> y" "y \<le> b"
  shows "trimf1 a b c x \<le> trimf1 a b c y"
proof (cases "y = b")
  case True
  then show ?thesis using trimf1_range[OF assms(1,2), of x] by (simp add: trimf1_def)
next
  case False
  then have "y < b" "x < b" using assms by auto
  then show ?thesis using assms by (auto simp: trimf1_def divide_right_mono)
qed

lemma trimf1_falling:
  assumes "a \<le> b" "b \<le> c" "b \<le> y" "y \<le> x"
  shows "trimf1 a b c x \<le> trimf1 a b c y"
proof (cases "y = b")
  case True
  then show ?thesis using trimf1_range[OF assms(1,2), of x] by (simp add: trimf1_def)
next
  case False
  then have "b < y" "b < x" using assms by auto
  then show ?thesis using assms by (auto simp: trimf1_def divide_right_mono)
qed


lemma length_universe: "length universe = 2001"
  by (simp add: universe_def arange_def)

lemma universe_nonempty: "universe \<noteq> []"
  using length_universe by auto

lemma nth_universe: "i < 2001 \<Longrightarrow> universe ! i = -1 + real i / 1000"
  by (simp add: universe_def arange_def)

text \<open>
  Claim C4, as amended. For every even-length list of at least four distinct terms and
  every non-empty universe, \<^verbatim>\<open>automf\<close> returns one entry per term, in order; each
  array has the length of the universe, every degree lies in \<open>[0, 1]\<close>, a sample equal
  to the computed center of the term has degree 1, the largest a degree can be, and
  degrees do not increase as samples move away from the center on either side.
\<close>

theorem automf_even:
  assumes "even (length ts)" "4 \<le> length ts" "distinct ts" "u \<noteq> []"
  shows "\<exists>mf. automf u ts = Inr mf \<and> map fst mf = ts \<and>
    (\<forall>i < length ts. length (snd (mf ! i)) = length u \<and>
       (\<forall>j < length u. 0 \<le> snd (mf ! i) ! j \<and> snd (mf ! i) ! j \<le> 1 \<and>
           (u ! j = centers (length ts) ! i \<longrightarrow> snd (mf ! i) ! j = 1)) \<and>
       (\<forall>j < length u. \<forall>k < length u.
           (u ! j \<le> u ! k \<and> u ! k \<le> centers (length ts) ! i) \<or>
           (centers (length ts) ! i \<le> u ! k \<and> u ! k \<le> u ! j)
             \<longrightarrow> snd (mf ! i) ! j \<le> snd (mf ! i) ! k))"
proof -
  define n where "n = length ts"
  have n2: "2 * (n div 2) = n" using assms(1) by (simp add: n_def)
  have h: "2 \<le> length ts div 2" using assms(2) by presburger
  have d: "distinct (take (2 * (length ts div 2)) ts)" using assms(3) by simp
  obtain l where l: "length l = n" "\<forall>i < n. ok_abc (centers n ! i) (l ! i)"
      "automf u ts = Inr (map (\<lambda>(t, a, b, c). (t, map (trimf1 a b c) u)) (zip ts l))"
    using automf_ok[OF h assms(4) d] n2 unfolding n_def by auto
  define mf where "mf = map (\<lambda>(t, a, b, c). (t, map (trimf1 a b c) u)) (zip ts l)"
  have keys: "map fst mf = ts"
  proof -
    have "map fst mf = map fst (zip ts l)" by (simp add: mf_def case_prod_unfold comp_def)
    then show ?thesis using l(1) by (simp add: n_def)
  qed
  have row: "\<exists>a b c. a \<le> b \<and> b \<le> c \<and> b = centers n ! i \<and> snd (mf ! i) = map (trimf1 a b c) u"
    if "i < n" for i
  proof -
    obtain a b c where abc: "l ! i = (a, b, c)" by (cases "l ! i") auto
    have "ok_abc (centers n ! i) (l ! i)" using l(2) that by simp
    then have "a \<le> b \<and> b \<le> c \<and> b = centers n ! i" by (simp add: abc ok_abc_def)
    moreover have "snd (mf ! i) = map (trimf1 a b c) u"
      using that l(1) abc by (simp add: mf_def n_def)
    ultimately show ?thesis by blast
  qed
  have "length (snd (mf ! i)) = length u \<and>
       (\<forall>j < length u. 0 \<le> snd (mf ! i) ! j \<and> snd (mf ! i) ! j \<le> 1 \<and>
           (u ! j = centers n ! i \<longrightarrow> snd (mf ! i) ! j = 1)) \<and>
       (\<forall>j < length u. \<forall>k < length u.
           (u ! j \<le> u ! k \<and> u ! k \<le> centers n ! i) \<or>
           (centers n ! i \<le> u ! k \<and> u ! k \<le> u ! j)
             \<longrightarrow> snd (mf ! i) ! j \<le> snd (mf ! i) ! k)" if i: "i < n" for i
  proof -
    obtain a b c where abc: "a \<le> b" "b \<le> c" "b = centers n ! i"
        "snd (mf ! i) = map (trimf1 a b c) u"
      using row[OF i] by blast
    show ?thesis
      unfolding abc(4) abc(3)[symmetric]
      using trimf1_range[OF abc(1,2)] trimf1_apex[OF abc(1,2)]
        trimf1_rising[OF abc(1,2)] trimf1_falling[OF abc(1,2)]
      by auto
  qed
  then show ?thesis using l(3) keys unfolding mf_def[symmetric] n_def by blast
qed

theorem automf_even_witness:
  "even (length [''-H'', ''-L'', ''L'', ''H'']) \<and> 4 \<le> length [''-H'', ''-L'', ''L'', ''H''] \<and>
   distinct [''-H'', ''-L'', ''L'', ''H''] \<and> [-1, 0, 1 :: real] \<noteq> [] \<and>
   (\<exists>mf. automf [-1, 0, 1] [''-H'', ''-L'', ''L'', ''H''] = Inr mf \<and>
         map fst mf = [''-H'', ''-L'', ''L'', ''H''])"
  using automf_even [of "[''-H'', ''-L'', ''L'', ''H'']" "[-1, 0, 1]"]
  by auto

lemma automf_two_terms: "automf universe [''-L'', ''L''] = Inl IndexError"
proof -
  have "abcs universe (length [''-L'', ''L'']) = Inl IndexError"
    by (rule abcs_small) (simp_all add: universe_nonempty)
  then show ?thesis by (simp add: automf_def rbind_def)
qed

text \<open>
  Claim C3, as amended. \<^verbatim>\<open>automf\<close> has no parity check. An odd-length list of at
  most three terms fails with IndexError at \<^verbatim>\<open>centers_pos[1]\<close>; an odd-length list
  of five or more terms returns membership functions for all terms but the last, which
  \<^verbatim>\<open>zip\<close> drops.
\<close>

theorem automf_odd:
  assumes "odd (length ts)" "u \<noteq> []"
  shows "(length ts \<le> 3 \<longrightarrow> automf u ts = Inl IndexError) \<and>
         (5 \<le> length ts \<and> distinct (butlast ts) \<longrightarrow>
            (\<exists>mf. automf u ts = Inr mf \<and> map fst mf = butlast ts))"
proof (intro conjI impI)
  assume "length ts \<le> 3"
  then have "length ts div 2 < 2" by simp
  then show "automf u ts = Inl IndexError"
    using abcs_small[OF _ assms(2)] by (simp add: automf_def rbind_def)
next
  assume a: "5 \<le> length ts \<and> distinct (butlast ts)"
  define n where "n = length ts"
  have n2: "2 * (n div 2) = n - 1" using assms(1) unfolding n_def by presburger
  have "5 \<le> length ts" using a by simp
  then have h: "2 \<le> length ts div 2" by presburger
  have d: "distinct (take (2 * (length ts div 2)) ts)"
    using a n2 by (simp add: butlast_conv_take n_def)
  obtain l where l: "length l = n - 1"
      "automf u ts = Inr (map (\<lambda>(t, a, b, c). (t, map (trimf1 a b c) u)) (zip ts l))"
    using automf_ok[OF h assms(2) d] n2 unfolding n_def by auto
  have "map fst (map (\<lambda>(t, a, b, c). (t, map (trimf1 a b c) u)) (zip ts l)) = map fst (zip ts l)"
    by (simp add: case_prod_unfold comp_def)
  also have "\<dots> = butlast ts"
    using l(1) \<open>5 \<le> length ts\<close> by (auto simp: map_fst_zip_take butlast_conv_take n_def min_def)
  finally show "\<exists>mf. automf u ts = Inr mf \<and> map fst mf = butlast ts"
    using l(2) by blast
qed

theorem automf_odd_witness:
  "odd (length [''a'', ''b'', ''c'']) \<and> [-1, 0, 1 :: real] \<noteq> [] \<and>
   automf [-1, 0, 1] [''a'', ''b'', ''c''] = Inl IndexError \<and>
   5 \<le> length [''a'', ''b'', ''c'', ''d'', ''e''] \<and> distinct (butlast [''a'', ''b'', ''c'', ''d'', ''e'']) \<and>
   (\<exists>mf. automf [-1, 0, 1] [''a'', ''b'', ''c'', ''d'', ''e''] = Inr mf \<and>
         map fst mf = [''a'', ''b'', ''c'', ''d''])"
  using automf_odd [of "[''a'', ''b'', ''c'']" "[-1, 0, 1]"]
    automf_odd [of "[''a'', ''b'', ''c'', ''d'', ''e'']" "[-1, 0, 1]"]
  by auto

text \<open>Five terms: the call returns, with four entries.\<close>

theorem automf_five_terms_partial:
  "\<not> isl (automf universe [''-H'', ''-L'', ''Z'', ''L'', ''H'']) \<and>
   map fst (projr (automf universe [''-H'', ''-L'', ''Z'', ''L'', ''H''])) = [''-H'', ''-L'', ''Z'', ''L'']"
proof -
  have "\<exists>l. length l = 2 * (length [''-H'', ''-L'', ''Z'', ''L'', ''H''] div 2) \<and>
     automf universe [''-H'', ''-L'', ''Z'', ''L'', ''H'']
       = Inr (map (\<lambda>(t, a, b, c). (t, map (trimf1 a b c) universe)) (zip [''-H'', ''-L'', ''Z'', ''L'', ''H''] l))"
    using automf_ok[of "[''-H'', ''-L'', ''Z'', ''L'', ''H'']" universe] universe_nonempty
    by auto
  then obtain l where l: "length l = 4"
     "automf universe [''-H'', ''-L'', ''Z'', ''L'', ''H'']
       = Inr (map (\<lambda>(t, a, b, c). (t, map (trimf1 a b c) universe)) (zip [''-H'', ''-L'', ''Z'', ''L'', ''H''] l))"
    by auto
  obtain p q r s where "l = [p, q, r, s]"
    using l(1) by (auto simp: length_Suc_conv numeral_eq_Suc)
  then show ?thesis by (simp add: l(2) case_prod_unfold)
qed

section \<open>Properties of the universe and of defuzzify\<close>

lemma universe_map: "universe = map (\<lambda>i. -1 + real i / 1000) [0..<2001]"
  by (simp add: universe_def arange_def)

lemma universe_range: "x \<in> set universe \<Longrightarrow> -1 \<le> x \<and> x \<le> 1"
  by (auto simp: universe_map)

lemma universe_mem: "i < 2001 \<Longrightarrow> -1 + real i / 1000 \<in> set universe"
  by (auto simp: universe_map)

lemma lower_plain [simp]:
  "lower ''centroid'' = ''centroid''" "lower ''bisector'' = ''bisector''"
  "lower ''mom'' = ''mom''" "lower ''som'' = ''som''" "lower ''lom'' = ''lom''"
  by (simp_all add: lower_def)





section \<open>Properties of the text round trip\<close>

lemma unhex_hexdigit_all: "list_all (\<lambda>n. unhex (hexdigit n) = Some n) [0..<16]"
  by code_simp

lemma unhex_hexdigit: "n < 16 \<Longrightarrow> unhex (hexdigit n) = Some n"
  using unhex_hexdigit_all by (simp add: list_all_iff)

lemma str_body_escape:
  assumes "c \<noteq> sq"
  shows "str_body (map Ch (escape sq c) @ t) = consc c (str_body t)"
proof -
  let ?n = "of_char c :: nat"
  have n: "?n < 256" by simp
  have hx: "unhex (hexdigit (?n div 16)) = Some (?n div 16)"
           "unhex (hexdigit (?n mod 16)) = Some (?n mod 16)"
    using n by (auto intro!: unhex_hexdigit simp: less_mult_imp_div_less)
  have rt: "char_of (16 * (?n div 16) + ?n mod 16) = c" by simp
  consider (c1) "c = bs" | (c2) "c = CHR 0x0A" | (c3) "c = CHR 0x0D" | (c4) "c = CHR 0x09"
    | (c5) "c \<noteq> bs" "c \<noteq> CHR 0x0A" "c \<noteq> CHR 0x0D" "c \<noteq> CHR 0x09" "?n < 32 \<or> ?n = 127"
    | (c6) "c \<noteq> bs" "c \<noteq> CHR 0x0A" "c \<noteq> CHR 0x0D" "c \<noteq> CHR 0x09" "\<not> (?n < 32 \<or> ?n = 127)"
    by blast
  then show ?thesis
  proof cases
    case c1
    then show ?thesis by (simp add: escape_def unesc_def bs_def sq_def)
  next
    case c2
    then show ?thesis by (simp add: escape_def unesc_def bs_def sq_def dq_def)
  next
    case c3
    then show ?thesis by (simp add: escape_def unesc_def bs_def sq_def dq_def)
  next
    case c4
    then show ?thesis by (simp add: escape_def unesc_def bs_def sq_def dq_def)
  next
    case c5
    have "escape sq c = [bs, CHR ''x'', hexdigit (?n div 16), hexdigit (?n mod 16)]"
      using c5 assms by (simp add: escape_def)
    then show ?thesis using hx rt by (simp add: bs_def sq_def)
  next
    case c6
    have "escape sq c = [c]" using c6 assms by (simp add: escape_def)
    then show ?thesis using c6 assms by simp
  qed
qed

lemma str_body_escaped:
  assumes "sq \<notin> set k"
  shows "str_body (map Ch (concat (map (escape sq) k)) @ Ch sq # t) = Some (k, t)"
  using assms
proof (induction k)
  case Nil
  then show ?case by simp
next
  case (Cons c k)
  have "str_body (map Ch (concat (map (escape sq) (c # k))) @ Ch sq # t)
      = str_body (map Ch (escape sq c) @ (map Ch (concat (map (escape sq) k)) @ Ch sq # t))"
    by simp
  also have "\<dots> = consc c (str_body (map Ch (concat (map (escape sq) k)) @ Ch sq # t))"
    using Cons.prems by (intro str_body_escape) auto
  also have "\<dots> = Some (c # k, t)" using Cons by (simp add: consc_def)
  finally show ?case .
qed

lemma escape_no_dq: "c \<noteq> dq \<Longrightarrow> dq \<notin> set (escape sq c)"
proof -
  assume c: "c \<noteq> dq"
  have "list_all (\<lambda>n. hexdigit n \<noteq> dq) [0..<16]" by code_simp
  then have h: "n < 16 \<Longrightarrow> hexdigit n \<noteq> dq" for n by (simp add: list_all_iff)
  have "(of_char c :: nat) div 16 < 16" by (simp add: less_mult_imp_div_less)
  then show ?thesis using c h[of "of_char c div 16"] h[of "of_char c mod 16"]
    by (auto simp: escape_def bs_def sq_def dq_def)
qed

lemma py_repr_plain:
  assumes "sq \<notin> set k"
  shows "py_repr k = sq # concat (map (escape sq) k) @ [sq]"
  using assms by (simp add: py_repr_def)

lemma replace_dq_entry:
  assumes "sq \<notin> set k" "dq \<notin> set k"
  shows "replace_dq (str_entry (k, v)) = str_entry (k, v)"
proof -
  have "dq \<notin> set (escape sq c)" if "c \<in> set k" for c
  proof (rule escape_no_dq)
    show "c \<noteq> dq" using that assms(2) by auto
  qed
  then have "dq \<notin> set (concat (map (escape sq) k))" by auto
  then show ?thesis
    unfolding replace_dq_def str_entry_def
    by (intro filter_True) (auto simp: py_repr_plain[OF assms(1)] sq_def dq_def)
qed


lemma entries_step:
  assumes "sq \<notin> set k"
  shows "entries (str_entry (k, v) @ r1) =
     (case r1 of
        [Ch c3] \<Rightarrow> if c3 = CHR ''}'' then Some [(k, v)] else None
      | Ch c3 # Ch c4 # r2 \<Rightarrow>
          if c3 = CHR '','' \<and> c4 = CHR '' '' then
            (case entries r2 of None \<Rightarrow> None | Some es \<Rightarrow> Some ((k, v) # es))
          else None
      | _ \<Rightarrow> None)"
proof -
  have tx: "str_entry (k, v) @ r1
      = Ch sq # (map Ch (concat (map (escape sq) k)) @ Ch sq # Ch CHR '':'' # Ch CHR '' '' # Num v # r1)"
    by (simp add: str_entry_def py_repr_plain[OF assms])
  have body: "str_body (map Ch (concat (map (escape sq) k)) @ Ch sq # Ch CHR '':'' # Ch CHR '' '' # Num v # r1)
      = Some (k, Ch CHR '':'' # Ch CHR '' '' # Num v # r1)"
    by (rule str_body_escaped[OF assms])
  show ?thesis
    unfolding tx by (subst entries.simps) (simp add: body)
qed

lemma entries_roundtrip:
  assumes "d \<noteq> []" "\<forall>k \<in> fst ` set d. sq \<notin> set k"
  shows "entries (join [Ch CHR '','', Ch CHR '' ''] (map str_entry d) @ [Ch CHR ''}'']) = Some d"
  using assms
proof (induction d)
  case Nil
  then show ?case by simp
next
  case (Cons e d)
  obtain k v where e: "e = (k, v)" by (cases e) auto
  have k: "sq \<notin> set k" using Cons.prems(2) e by simp
  show ?case
  proof (cases d)
    case Nil
    then show ?thesis using entries_step[OF k, of v "[Ch CHR ''}'']"] by (simp add: e)
  next
    case (Cons e' d')
    have ih: "entries (join [Ch CHR '','', Ch CHR '' ''] (map str_entry d) @ [Ch CHR ''}'']) = Some d"
      using Cons.IH Cons.prems(2) Cons by simp
    have "join [Ch CHR '','', Ch CHR '' ''] (map str_entry (e # d)) @ [Ch CHR ''}'']
        = str_entry (k, v) @ (Ch CHR '','' # Ch CHR '' '' #
            (join [Ch CHR '','', Ch CHR '' ''] (map str_entry d) @ [Ch CHR ''}'']))"
      by (simp add: e Cons)
    then show ?thesis
      using entries_step[OF k, of v "Ch CHR '','' # Ch CHR '' '' #
            (join [Ch CHR '','', Ch CHR '' ''] (map str_entry d) @ [Ch CHR ''}''])"] ih
      by (simp add: e)
  qed
qed

lemma replace_dq_join:
  assumes "\<forall>e \<in> set d. sq \<notin> set (fst e) \<and> dq \<notin> set (fst e)"
  shows "replace_dq (join [Ch CHR '','', Ch CHR '' ''] (map str_entry d))
       = join [Ch CHR '','', Ch CHR '' ''] (map str_entry d)"
  using assms
proof (induction d rule: induct_list012)
  case 1
  then show ?case by (simp add: replace_dq_def)
next
  case (2 e)
  then show ?case using replace_dq_entry[of "fst e" "snd e"] by simp
next
  case (3 e e' d)
  have a: "replace_dq (str_entry e) = str_entry e"
    using "3.prems" replace_dq_entry[of "fst e" "snd e"] by simp
  have b: "replace_dq (join [Ch CHR '','', Ch CHR '' ''] (map str_entry (e' # d)))
         = join [Ch CHR '','', Ch CHR '' ''] (map str_entry (e' # d))"
    using "3.IH"(2) "3.prems" by simp
  have c: "replace_dq (x @ y) = replace_dq x @ replace_dq y" for x y
    by (simp add: replace_dq_def)
  show ?case using a b by (simp add: c) (simp add: replace_dq_def dq_def)
qed

lemma fold_update_distinct:
  "distinct (map fst (acc @ es)) \<Longrightarrow>
   fold (\<lambda>e d. AList.update (fst e) (snd e) d) es acc = acc @ es"
proof (induction es arbitrary: acc)
  case Nil
  then show ?case by simp
next
  case (Cons e es)
  have "fst e \<notin> fst ` set acc" using Cons.prems by auto
  then have "AList.update (fst e) (snd e) acc = acc @ [e]"
    by (simp add: update_fresh)
  moreover have "distinct (map fst ((acc @ [e]) @ es))" using Cons.prems by simp
  ultimately show ?case using Cons.IH[of "acc @ [e]"] by simp
qed

text \<open>
  Claim C10, as amended. For every tally (a dict, so with distinct keys) none of whose
  keys holds a single-quote or a double-quote character, printing it with \<^verbatim>\<open>str\<close>,
  deleting the double quotes and evaluating the text gives the tally back, keys and
  frequencies alike. The labels of the default term list are such keys.
\<close>

theorem str_eval_roundtrip:
  assumes "distinct (map fst d)" "\<forall>k \<in> fst ` set d. sq \<notin> set k \<and> dq \<notin> set k"
  shows "eval_dict (replace_dq (str_dict d)) = Inr d"
proof (cases "d = []")
  case True
  then show ?thesis by (simp add: eval_dict_def replace_dq_def str_dict_def dq_def)
next
  case False
  let ?body = "join [Ch CHR '','', Ch CHR '' ''] (map str_entry d)"
  have "replace_dq (str_dict d) = Ch CHR ''{'' # replace_dq ?body @ [Ch CHR ''}'']"
    by (simp add: replace_dq_def str_dict_def dq_def)
  also have "replace_dq ?body = ?body" using assms(2) by (intro replace_dq_join) auto
  finally have tx: "replace_dq (str_dict d) = Ch CHR ''{'' # ?body @ [Ch CHR ''}'']" .
  have ent: "entries (?body @ [Ch CHR ''}'']) = Some d"
    using False assms(2) by (intro entries_roundtrip) auto
  have ne: "?body \<noteq> []"
  proof
    assume "?body = []"
    then have "entries [Ch CHR ''}''] = Some d" using ent by simp
    then show False by (subst (asm) entries.simps) (simp add: sq_def)
  qed
  have "fold (\<lambda>e d. AList.update (fst e) (snd e) d) d [] = [] @ d"
    using assms(1) by (intro fold_update_distinct) simp
  then show ?thesis by (simp add: eval_dict_def tx ent ne)
qed

theorem str_eval_roundtrip_witness:
  "distinct (map fst [(''H'', 2 / 3), (''-VH'', 1 / 3 :: real)]) \<and>
   eval_dict (replace_dq (str_dict [(''H'', 2 / 3), (''-VH'', 1 / 3)])) = Inr [(''H'', 2 / 3), (''-VH'', 1 / 3)]"
  using str_eval_roundtrip [of "[(''H'', 2 / 3), (''-VH'', 1 / 3)]"]
  by (simp add: sq_def dq_def)

text \<open>A label with a double quote in it comes back without it.\<close>

theorem str_eval_drops_double_quote:
  "eval_dict (replace_dq (str_dict [([CHR ''a'', CHR 0x22, CHR ''b''], 1)])) = Inr [(''ab'', 1)]"
  by (simp add: eval_dict_def replace_dq_def str_dict_def str_entry_def py_repr_def escape_def
      entries.simps consc_def sq_def dq_def bs_def Let_def)

section \<open>The comparison with None\<close>

text \<open>
  Claim C9. A single DataFrame given as \<^verbatim>\<open>data\<close> to the constructor, to
  \<^verbatim>\<open>gen_weights_mat\<close> or to \<^verbatim>\<open>gen_weights_list\<close> makes the comparison with
  \<^verbatim>\<open>None\<close> raise ValueError: the call fails and the table is never used.
\<close>

theorem single_frame_fails:
  "init (FrameArg f0) = Inl ValueError \<and>
   gen_weights_mat check lib self (FrameArg f) linguistic_terms method = Inl ValueError \<and>
   gen_weights_list check' lib' self' (FrameArg f') linguistic_terms' method' = Inl ValueError"
  by (simp add: init_def gen_weights_mat_def gen_weights_list_def eq_None_def ne_None_def rbind_def)

section \<open>Properties of gen_weights_mat\<close>

lemma for_each_inv:
  assumes "for_each body xs s = Inr s'" "P s"
    and "\<And>x t t'. x \<in> set xs \<Longrightarrow> P t \<Longrightarrow> body x t = Inr t' \<Longrightarrow> P t'"
  shows "P s'"
  using assms
proof (induction xs arbitrary: s)
  case Nil
  then show ?case by simp
next
  case (Cons x xs)
  obtain t where t: "body x s = Inr t" "for_each body xs t = Inr s'"
    using Cons.prems(1) by (auto simp: rbind_def split: sum.splits)
  have "P t" using Cons.prems(2,3) t(1) by auto
  then show ?case using Cons.IH[OF t(2)] Cons.prems(3) by auto
qed

lemma for_each2_inv:
  assumes "for_each (\<lambda>x. for_each (body x) ys) xs s = Inr s'" "P s"
    and "\<And>x y t t'. x \<in> set xs \<Longrightarrow> y \<in> set ys \<Longrightarrow> P t \<Longrightarrow> body x y t = Inr t' \<Longrightarrow> P t'"
  shows "P s'"
proof (rule for_each_inv[where P = P, OF assms(1,2)])
  fix x t t'
  assume x: "x \<in> set xs" and t: "P t" and b: "for_each (body x) ys t = Inr t'"
  show "P t'"
    by (rule for_each_inv[where P = P, OF b t]) (use assms(3) x in blast)
qed

lemma infer_frame:
  assumes "infer lib u mf method a c ap s = Inr t"
  shows "r_expert_data t = r_expert_data s"
    and "\<exists>aggr. r_aggregated t = AList.update (pair_key a c) aggr (r_aggregated s)"
    and "fst (r_weights t) = fst (r_weights s)"
    and "snd (r_weights t) = snd (r_weights s) \<or> (\<exists>v. snd (r_weights t) = (snd (r_weights s))((a, c) \<mapsto> v))"
  using assms
  by (auto simp: infer_def rbind_def wm_set_def Let_def split: sum.splits if_splits)

lemma present_all_None: "\<forall>v \<in> set cells. v = None \<Longrightarrow> present cells = []"
  by (induction cells) (auto simp: present_def)

lemma mat_pair_empty:
  assumes "mat_pair lib u mf method flat n a c s = Inr t"
    and "\<forall>r \<in> set (rows flat). fst r = a \<longrightarrow> snd r c = None"
  shows "t = s"
proof -
  obtain cells where cells: "pair_cells flat a c = Inr cells"
    using assms(1) by (auto simp: mat_pair_def rbind_def split: sum.splits)
  define sel where "sel = filter (\<lambda>r. fst r = a) (rows flat)"
  have sel: "\<forall>r \<in> set sel. snd r c = None" using assms(2) by (auto simp: sel_def)
  have "cells = map (\<lambda>r. snd r c) sel"
    using cells unfolding pair_cells_def sel_def[symmetric]
    by (auto split: list.splits option.splits)
  then have "\<forall>v \<in> set cells. v = None" using sel by auto
  then have "crosstab cells n = []" by (simp add: crosstab_def present_all_None)
  then show ?thesis using assms(1) cells by (simp add: mat_pair_def rbind_def Let_def)
qed


lemma set_unique [simp]: "set (unique xs) = set xs"
proof -
  have "set (fold (\<lambda>x acc. if x \<in> set acc then acc else acc @ [x]) xs acc) = set acc \<union> set xs" for acc
    by (induction xs arbitrary: acc) auto
  then show ?thesis by (simp add: unique_def)
qed

lemma mat_pair_other:
  assumes "mat_pair lib u mf method flat n a' c' s = Inr t" and "(a', c') \<noteq> (a, c)"
  shows "snd (r_weights t) (a, c) = snd (r_weights s) (a, c)"
    and "map_of (r_expert_data t) (a, c) = map_of (r_expert_data s) (a, c)"
    and "pair_key a' c' \<noteq> pair_key a c \<Longrightarrow>
           map_of (r_aggregated t) (pair_key a c) = map_of (r_aggregated s) (pair_key a c)"
proof -
  obtain cells where cells: "pair_cells flat a' c' = Inr cells"
    using assms(1) by (auto simp: mat_pair_def rbind_def split: sum.splits)
  show "snd (r_weights t) (a, c) = snd (r_weights s) (a, c)"
  proof (cases "crosstab cells n = []")
    case True
    then show ?thesis using assms(1) cells by (simp add: mat_pair_def rbind_def Let_def)
  next
    case False
    then obtain ap where
      inf: "infer lib u mf method a' c' ap (s\<lparr>r_expert_data := AList.update (a', c') ap (r_expert_data s)\<rparr>) = Inr t"
      using assms(1) cells by (auto simp: mat_pair_def rbind_def Let_def split: sum.splits)
    show ?thesis using infer_frame(4)[OF inf] assms(2) by auto
  qed
  show "map_of (r_expert_data t) (a, c) = map_of (r_expert_data s) (a, c)"
  proof (cases "crosstab cells n = []")
    case True
    then show ?thesis using assms(1) cells by (simp add: mat_pair_def rbind_def Let_def)
  next
    case False
    then obtain ap where
      inf: "infer lib u mf method a' c' ap (s\<lparr>r_expert_data := AList.update (a', c') ap (r_expert_data s)\<rparr>) = Inr t"
      using assms(1) cells by (auto simp: mat_pair_def rbind_def Let_def split: sum.splits)
    show ?thesis using infer_frame(1)[OF inf] assms(2) by (auto simp: update_conv)
  qed
  show "map_of (r_aggregated t) (pair_key a c) = map_of (r_aggregated s) (pair_key a c)"
    if k: "pair_key a' c' \<noteq> pair_key a c"
  proof (cases "crosstab cells n = []")
    case True
    then show ?thesis using assms(1) cells by (simp add: mat_pair_def rbind_def Let_def)
  next
    case False
    then obtain ap where
      inf: "infer lib u mf method a' c' ap (s\<lparr>r_expert_data := AList.update (a', c') ap (r_expert_data s)\<rparr>) = Inr t"
      using assms(1) cells by (auto simp: mat_pair_def rbind_def Let_def split: sum.splits)
    show ?thesis using infer_frame(2)[OF inf] k by (auto simp: update_conv)
  qed
qed

lemma gen_weights_mat_core:
  assumes "gen_weights_mat check lib self arg linguistic_terms method = Inr self'"
    and "arg = NoneArg \<and> d = data self \<or> arg = DictArg d"
  shows "mat_core lib self d linguistic_terms method = Inr self'"
  using assms
  by (auto simp: gen_weights_mat_def eq_None_def rbind_def split: sum.splits if_splits)

lemma mat_core_run:
  assumes "mat_core lib self d linguistic_terms method = Inr self'"
  shows "\<exists>flat mf s. concat_frames (map snd d) = Inr flat \<and>
           automf (universe_of self) linguistic_terms = Inr mf \<and>
           for_each (\<lambda>antecedent. for_each (\<lambda>consequent.
               mat_pair lib (universe_of self) mf method flat (length d) antecedent consequent)
               (columns flat)) (columns flat)
             \<lparr>r_expert_data = [], r_aggregated = [],
              r_weights = (unique (map fst (rows flat)), Map.empty)\<rparr> = Inr s \<and>
           self' = self\<lparr>expert_data := r_expert_data s, aggregated := r_aggregated s,
                        terms := mf, causal_weights := fillna0 (r_weights s)\<rparr>"
  using assms
  by (auto simp: mat_core_def rbind_def Let_def split: sum.splits)

lemma concat_frames_rows:
  assumes "concat_frames fs = Inr flat"
  shows "set (columns flat) = (\<Union>f \<in> set fs. set (columns f))"
    and "set (rows flat) = (\<Union>f \<in> set fs. own_cells f ` set (rows f))"
    and "fs \<noteq> []"
  using assms by (fastforce simp: concat_frames_def split: if_splits)+

text \<open>
  Claim C7, as amended. When \<^verbatim>\<open>gen_weights_mat\<close> returns, for every ordered pair \<open>(a, c)\<close> to
  which no expert's table assigns a term, the cell of the final matrix is 0 and
  \<^verbatim>\<open>expert_data\<close> has no entry for the pair. \<^verbatim>\<open>aggregated\<close> is keyed by the two
  names joined with a space; it has no entry under the key of the pair either, provided no
  other pair of concepts is joined to the same key.
\<close>

theorem mat_empty_tally:
  assumes "gen_weights_mat check lib self arg linguistic_terms method = Inr self'"
    and "arg = NoneArg \<and> d = data self \<or> arg = DictArg d"
    and "\<forall>f \<in> snd ` set d. \<forall>r \<in> set (rows f). fst r = a \<longrightarrow> c \<in> set (columns f) \<longrightarrow> snd r c = None"
  shows "snd (causal_weights self') (a, c) = 0 \<and> map_of (expert_data self') (a, c) = None \<and>
     ((\<forall>f \<in> snd ` set d. \<forall>g \<in> snd ` set d. \<forall>a' \<in> set (columns f). \<forall>c' \<in> set (columns g).
          pair_key a' c' = pair_key a c \<longrightarrow> a' = a \<and> c' = c)
        \<longrightarrow> map_of (aggregated self') (pair_key a c) = None)"
proof -
  obtain flat mf s where run:
    "concat_frames (map snd d) = Inr flat"
    "for_each (\<lambda>antecedent. for_each (\<lambda>consequent.
               mat_pair lib (universe_of self) mf method flat (length d) antecedent consequent)
               (columns flat)) (columns flat)
             \<lparr>r_expert_data = [], r_aggregated = [],
              r_weights = (unique (map fst (rows flat)), Map.empty)\<rparr> = Inr s"
    "self' = self\<lparr>expert_data := r_expert_data s, aggregated := r_aggregated s,
                        terms := mf, causal_weights := fillna0 (r_weights s)\<rparr>"
    using mat_core_run[OF gen_weights_mat_core[OF assms(1,2)]] by blast
  have cols: "set (columns flat) = (\<Union>f \<in> snd ` set d. set (columns f))"
    using concat_frames_rows(1)[OF run(1)] by simp
  have empty: "\<forall>r \<in> set (rows flat). fst r = a \<longrightarrow> snd r c = None"
    using concat_frames_rows(2)[OF run(1)] assms(3) by (auto simp: own_cells_def)
  let ?body = "\<lambda>x y. mat_pair lib (universe_of self) mf method flat (length d) x y"
  let ?P = "\<lambda>t. snd (r_weights t) (a, c) = None \<and> map_of (r_expert_data t) (a, c) = None"
  have "?P s"
  proof (rule for_each2_inv[where P = ?P and body = ?body, OF run(2)])
    show "?P \<lparr>r_expert_data = [], r_aggregated = [],
              r_weights = (unique (map fst (rows flat)), Map.empty)\<rparr>" by simp
  next
    fix x y t t'
    assume t: "?P t" and b: "?body x y t = Inr t'"
    show "?P t'"
    proof (cases "(x, y) = (a, c)")
      case True
      then have "t' = t" using mat_pair_empty[OF _ empty] b by auto
      then show ?thesis using t by simp
    next
      case False
      then show ?thesis using mat_pair_other(1,2)[OF b False] t by simp
    qed
  qed
  then have first: "snd (causal_weights self') (a, c) = 0 \<and> map_of (expert_data self') (a, c) = None"
    by (simp add: run(3) fillna0_def)
  have second: "map_of (aggregated self') (pair_key a c) = None"
    if inj: "\<forall>f \<in> snd ` set d. \<forall>g \<in> snd ` set d. \<forall>a' \<in> set (columns f). \<forall>c' \<in> set (columns g).
          pair_key a' c' = pair_key a c \<longrightarrow> a' = a \<and> c' = c"
  proof -
    let ?Q = "\<lambda>t. map_of (r_aggregated t) (pair_key a c) = None"
    have "?Q s"
    proof (rule for_each2_inv[where P = ?Q and body = ?body, OF run(2)])
      show "?Q \<lparr>r_expert_data = [], r_aggregated = [],
              r_weights = (unique (map fst (rows flat)), Map.empty)\<rparr>" by simp
    next
      fix x y t t'
      assume x: "x \<in> set (columns flat)" and y: "y \<in> set (columns flat)"
        and t: "?Q t" and b: "?body x y t = Inr t'"
      show "?Q t'"
      proof (cases "(x, y) = (a, c)")
        case True
        then have "t' = t" using mat_pair_empty[OF _ empty] b by auto
        then show ?thesis using t by simp
      next
        case False
        have "pair_key x y \<noteq> pair_key a c"
          using inj x y False unfolding cols by blast
        then show ?thesis using mat_pair_other(3)[OF b False] t by simp
      qed
    qed
    then show ?thesis by (simp add: run(3))
  qed
  show ?thesis using first second by blast
qed

lemma w_run: "\<not> isl (gen_weights_mat (\<lambda>d s. Inr ()) w_lib w_self NoneArg [''-H'', ''-L'', ''L'', ''H''] ''centroid'')"
  by code_simp

theorem mat_empty_tally_witness:
  "\<not> isl (gen_weights_mat (\<lambda>d s. Inr ()) w_lib w_self NoneArg [''-H'', ''-L'', ''L'', ''H''] ''centroid'') \<and>
   snd (causal_weights (projr (gen_weights_mat (\<lambda>d s. Inr ()) w_lib w_self NoneArg
        [''-H'', ''-L'', ''L'', ''H''] ''centroid''))) (''B'', ''A'') = 0 \<and>
   map_of (expert_data (projr (gen_weights_mat (\<lambda>d s. Inr ()) w_lib w_self NoneArg
        [''-H'', ''-L'', ''L'', ''H''] ''centroid''))) (''B'', ''A'') = None \<and>
   map_of (aggregated (projr (gen_weights_mat (\<lambda>d s. Inr ()) w_lib w_self NoneArg
        [''-H'', ''-L'', ''L'', ''H''] ''centroid''))) (pair_key ''B'' ''A'') = None"
proof -
  let ?r = "gen_weights_mat (\<lambda>d s. Inr ()) w_lib w_self NoneArg [''-H'', ''-L'', ''L'', ''H''] ''centroid''"
  have ok: "?r = Inr (projr ?r)" using w_run by simp
  have d: "(NoneArg :: mframe arg) = NoneArg \<and> data w_self = data w_self \<or> NoneArg = DictArg (data w_self)"
    by simp
  show ?thesis
    using w_run mat_empty_tally[OF ok d, of "''B''" "''A''"]
    by (simp add: w_self_def w_frame_def pair_key_def)
qed

lemma k_run: "\<not> isl (gen_weights_mat (\<lambda>d s. Inr ()) w_lib k_self NoneArg [''-H'', ''-L'', ''L'', ''H''] ''centroid'')"
  by code_simp

text \<open>
  The claim without the proviso fails: in the run over the concepts A, ``B C'', ``A B'' and
  C no expert assigns a term to (A, ``B C''), the run returns, \<^verbatim>\<open>expert_data\<close> has no
  entry for that pair, and yet \<^verbatim>\<open>aggregated\<close> holds a record under its key, written
  for the pair (``A B'', C).
\<close>

theorem mat_key_collision:
  "\<not> isl (gen_weights_mat (\<lambda>d s. Inr ()) w_lib k_self NoneArg [''-H'', ''-L'', ''L'', ''H''] ''centroid'') \<and>
   map_of (expert_data (projr (gen_weights_mat (\<lambda>d s. Inr ()) w_lib k_self NoneArg
        [''-H'', ''-L'', ''L'', ''H''] ''centroid''))) (''A'', ''B C'') = None \<and>
   map_of (aggregated (projr (gen_weights_mat (\<lambda>d s. Inr ()) w_lib k_self NoneArg
        [''-H'', ''-L'', ''L'', ''H''] ''centroid''))) (pair_key ''A'' ''B C'') \<noteq> None"
  by code_simp

section \<open>The default membership functions and the centroid over the universe\<close>

lemma amin_universe: "amin universe = Inr (-1)"
proof -
  obtain x xs where u: "universe = x # xs"
    by (cases universe) (auto simp: universe_map)
  have "fold min xs x = Min (set (x # xs))" by (rule Min.set_eq_fold[symmetric])
  also have "\<dots> = Min (set universe)" by (simp only: u)
  also have "\<dots> = -1"
  proof (rule Min_eqI)
    show "-1 \<in> set universe" using universe_mem[of 0] by simp
    show "\<And>y. y \<in> set universe \<Longrightarrow> -1 \<le> y" using universe_range by blast
  qed auto
  finally show ?thesis by (simp add: amin_def u)
qed

lemma amax_universe: "amax universe = Inr 1"
proof -
  obtain x xs where u: "universe = x # xs"
    by (cases universe) (auto simp: universe_map)
  have "fold max xs x = Max (set (x # xs))" by (rule Max.set_eq_fold[symmetric])
  also have "\<dots> = Max (set universe)" by (simp only: u)
  also have "\<dots> = 1"
  proof (rule Max_eqI)
    show "1 \<in> set universe" using universe_mem[of 2000] by simp
    show "\<And>y. y \<in> set universe \<Longrightarrow> y \<le> 1" using universe_range by blast
  qed auto
  finally show ?thesis by (simp add: amax_def u)
qed

lemma abcs_default:
  "abcs universe 10 = Inr
     [(-5/4, -1, -3/4), (-100025/100000, -75025/100000, -50025/100000),
      (-7505/10000, -5005/10000, -2505/10000), (-50075/100000, -25075/100000, -75/100000),
      (-25075/100000, -1/1000, -1/1000), (1/1000, 1/1000, 25075/100000),
      (75/100000, 25075/100000, 50075/100000), (2505/10000, 5005/10000, 7505/10000),
      (50025/100000, 75025/100000, 100025/100000), (3/4, 1, 5/4)]"
  apply (simp add: abcs_def widths_def amin_universe amax_universe rbind_def Let_def centers_def
      centers_pos_def centers_neg_def linspace_def abcs0_def item_def item_from_end_def
      upt_rec)
  apply (simp add: eval_nat_numeral)
  done


lemma aggregate_pointwise_max:
  assumes "activated \<noteq> []" "\<forall>a \<in> snd ` set activated. length a = n"
  shows "aggregate activated = Inr (map (\<lambda>j. Max ((\<lambda>a. a ! j) ` snd ` set activated)) [0..<n])"
proof -
  obtain p rest where a: "activated = p # rest" using assms(1) by (cases activated) auto
  have "reduce_fmax (snd p) (map snd rest)
      = Inr (map (\<lambda>j. Max (insert (snd p ! j) ((\<lambda>y. y ! j) ` set (map snd rest)))) [0..<n])"
    using assms(2) a by (intro reduce_fmax_same) auto
  then show ?thesis using a by (simp add: aggregate_def)
qed

lemma activate_loop_ok:
  assumes "distinct (map fst ap)" "fst ` set acc \<inter> fst ` set ap = {}"
    and "\<forall>k \<in> fst ` set ap. k \<in> fst ` set mf"
  shows "activate_loop acc ap mf = Inr (acc @ map (\<lambda>e. (fst e, fmin (snd e) (the (map_of mf (fst e))))) ap)"
  using assms
proof (induction ap arbitrary: acc)
  case Nil
  then show ?case by simp
next
  case (Cons e ap)
  obtain k v where e: "e = (k, v)" by (cases e) auto
  have "k \<in> fst ` set mf" using Cons.prems(3) e by simp
  then obtain m where m: "map_of mf k = Some m"
    by (metis domD dom_map_of_conv_image_fst)
  have fresh: "k \<notin> fst ` set acc" using Cons.prems(2) e by auto
  have step: "activate_loop acc (e # ap) mf = activate_loop (acc @ [(k, fmin v m)]) ap mf"
    by (simp add: e m update_fresh[OF fresh])
  have "activate_loop (acc @ [(k, fmin v m)]) ap mf
      = Inr ((acc @ [(k, fmin v m)]) @ map (\<lambda>e. (fst e, fmin (snd e) (the (map_of mf (fst e))))) ap)"
  proof (rule Cons.IH)
    show "distinct (map fst ap)" using Cons.prems(1) by simp
    show "fst ` set (acc @ [(k, fmin v m)]) \<inter> fst ` set ap = {}"
      using Cons.prems(1,2) e by auto
    show "\<forall>k \<in> fst ` set ap. k \<in> fst ` set mf" using Cons.prems(3) by simp
  qed
  then show ?case using step by (simp add: e m)
qed

lemma activate_ok:
  assumes "distinct (map fst ap)" "\<forall>k \<in> fst ` set ap. k \<in> fst ` set mf"
  shows "activate ap mf = Inr (map (\<lambda>e. (fst e, fmin (snd e) (the (map_of mf (fst e))))) ap)"
  using activate_loop_ok[of ap "[]" mf] assms by (simp add: activate_def)

lemma centroid_mode [simp]: "is_in ''centroid'' (lower ''centroid'')"
  by simp

lemma defuzzify_centroid:
  assumes "length agg = length u" "sum_list agg \<noteq> 0" "is_in ''centroid'' (lower method)"
  shows "defuzzify lib u agg method = Inr (centroid u agg)"
  using assms by (simp add: defuzzify_def defuzz_def Let_def)

lemma segments_nth:
  "length x = length y \<Longrightarrow>
   segments x y = map (\<lambda>i. segment (x ! i) (x ! Suc i) (y ! i) (y ! Suc i)) [0..<length x - 1]"
proof (induction x y rule: segments.induct)
  case (1 x1 x2 xs y1 y2 ys)
  have "[0..<length (x1 # x2 # xs) - 1] = 0 # map Suc [0..<length (x2 # xs) - 1]"
    by (simp add: upt_conv_Cons map_Suc_upt del: upt_Suc)
  then show ?case using 1 by (simp add: comp_def del: upt_Suc)
qed simp_all

lemma segment_bounds:
  assumes "x1 < x2" "0 \<le> y1" "0 \<le> y2"
  shows "0 \<le> snd (segment x1 x2 y1 y2)"
    and "x1 * snd (segment x1 x2 y1 y2) \<le> fst (segment x1 x2 y1 y2)"
    and "fst (segment x1 x2 y1 y2) \<le> x2 * snd (segment x1 x2 y1 y2)"
    and "0 < y1 \<or> 0 < y2 \<Longrightarrow> 0 < snd (segment x1 x2 y1 y2)"
proof -
  define ar where "ar = snd (segment x1 x2 y1 y2)"
  have "\<exists>m. x1 \<le> m \<and> m \<le> x2 \<and> fst (segment x1 x2 y1 y2) = m * ar \<and> 0 \<le> ar \<and> (0 < y1 \<or> 0 < y2 \<longrightarrow> 0 < ar)"
  proof -
    consider (zero) "y1 = 0" "y2 = 0" | (rect) "y1 = y2" "y2 \<noteq> 0"
      | (up) "y1 = 0" "y2 \<noteq> 0" | (down) "y2 = 0" "y1 \<noteq> 0"
      | (trap) "y1 \<noteq> y2" "y1 \<noteq> 0" "y2 \<noteq> 0"
      by blast
    then show ?thesis
    proof cases
      case zero
      then show ?thesis using assms by (intro exI[of _ x1]) (simp add: segment_def ar_def)
    next
      case rect
      have "x1 \<le> (1 / 2) * (x1 + x2)" "(1 / 2) * (x1 + x2) \<le> x2" using assms(1) by (simp_all add: field_simps)
      then show ?thesis using rect assms
        by (intro exI[of _ "(1 / 2) * (x1 + x2)"]) (simp add: segment_def ar_def)
    next
      case up
      have "x1 \<le> 2 / 3 * (x2 - x1) + x1" "2 / 3 * (x2 - x1) + x1 \<le> x2" using assms(1) by (simp_all add: field_simps)
      then show ?thesis using up assms
        by (intro exI[of _ "2 / 3 * (x2 - x1) + x1"]) (simp add: segment_def ar_def)
    next
      case down
      have "x1 \<le> 1 / 3 * (x2 - x1) + x1" "1 / 3 * (x2 - x1) + x1 \<le> x2" using assms(1) by (simp_all add: field_simps)
      then show ?thesis using down assms
        by (intro exI[of _ "1 / 3 * (x2 - x1) + x1"]) (simp add: segment_def ar_def)
    next
      case trap
      have pos: "0 < y1" "0 < y2" using trap assms by auto
      define q where "q = (2 / 3 * (y2 + (1 / 2) * y1)) / (y1 + y2)"
      have q0: "0 \<le> q" unfolding q_def using pos by (intro divide_nonneg_nonneg) auto
      have q1: "q \<le> 1" unfolding q_def using pos by (simp add: field_simps)
      have m: "(2 / 3 * (x2 - x1) * (y2 + (1 / 2) * y1)) / (y1 + y2) + x1 = q * (x2 - x1) + x1"
        by (simp add: q_def field_simps)
      have "x1 \<le> q * (x2 - x1) + x1" using q0 assms(1) by simp
      moreover have "q * (x2 - x1) \<le> 1 * (x2 - x1)" using q1 assms(1) by (intro mult_right_mono) auto
      then have "q * (x2 - x1) + x1 \<le> x2" by simp
      ultimately show ?thesis using trap pos assms(1) m
        by (intro exI[of _ "q * (x2 - x1) + x1"]) (simp add: segment_def ar_def)
    qed
  qed
  then obtain m where m: "x1 \<le> m" "m \<le> x2" "fst (segment x1 x2 y1 y2) = m * ar" "0 \<le> ar"
    "0 < y1 \<or> 0 < y2 \<longrightarrow> 0 < ar" by blast
  show "0 \<le> snd (segment x1 x2 y1 y2)" using m(4) by (simp add: ar_def)
  show "x1 * snd (segment x1 x2 y1 y2) \<le> fst (segment x1 x2 y1 y2)"
    using m(1,3,4) by (simp add: ar_def[symmetric] mult_right_mono)
  show "fst (segment x1 x2 y1 y2) \<le> x2 * snd (segment x1 x2 y1 y2)"
    using m(2,3,4) by (simp add: ar_def[symmetric] mult_right_mono)
  show "0 < y1 \<or> 0 < y2 \<Longrightarrow> 0 < snd (segment x1 x2 y1 y2)" using m(5) by (simp add: ar_def)
qed


lemma sum_list_pos:
  fixes xs :: "real list"
  assumes "\<forall>x \<in> set xs. 0 \<le> x" "y \<in> set xs" "0 < y"
  shows "0 < sum_list xs"
  using assms
proof (induction xs)
  case Nil
  then show ?case by simp
next
  case (Cons x xs)
  have nn: "0 \<le> sum_list xs" using Cons.prems(1) by (intro sum_list_nonneg) auto
  show ?case
  proof (cases "y = x")
    case True
    then show ?thesis using nn Cons.prems(3) by simp
  next
    case False
    then have "0 < sum_list xs" using Cons by auto
    moreover have "0 \<le> x" using Cons.prems(1) by simp
    ultimately show ?thesis by simp
  qed
qed

lemma universe_step: "i < 2000 \<Longrightarrow> universe ! i < universe ! Suc i"
  by (simp add: nth_universe)

lemma segments_universe:
  assumes "length y = 2001"
  shows "segments universe y
       = map (\<lambda>i. segment (universe ! i) (universe ! Suc i) (y ! i) (y ! Suc i)) [0..<2000]"
  using segments_nth[of universe y] assms length_universe by simp

section \<open>Ranges of the membership degrees\<close>

lemma update_values: "snd ` set (AList.update k v al) \<subseteq> insert v (snd ` set al)"
  by (induction al) auto

lemma update_all:
  "P v \<Longrightarrow> \<forall>a \<in> snd ` set al. P a \<Longrightarrow> \<forall>a \<in> snd ` set (AList.update k v al). P a"
  by (induction al) auto

lemma repopulate_good:
  assumes "repopulate u acc zs = Inr res" "\<forall>m \<in> snd ` set acc. good (length u) m"
  shows "\<forall>m \<in> snd ` set res. good (length u) m"
  using assms
proof (induction zs arbitrary: acc)
  case Nil
  then show ?case by simp
next
  case (Cons z zs)
  obtain t a b c where z: "z = (t, a, b, c)" by (cases z) auto
  obtain y where y: "trimf u (a, b, c) = Inr y" "repopulate u (AList.update t y acc) zs = Inr res"
    using Cons.prems(1) by (auto simp: z rbind_def split: sum.splits)
  have abc: "a \<le> b" "b \<le> c" "y = map (trimf1 a b c) u"
    using y(1) by (auto simp: trimf_def split: if_splits)
  have "good (length u) y"
    using trimf1_range[OF abc(1,2)] by (auto simp: good_def abc(3))
  then have "\<forall>m \<in> snd ` set (AList.update t y acc). good (length u) m"
    using Cons.prems(2) by (intro update_all)
  then show ?case by (rule Cons.IH[OF y(2)])
qed

lemma automf_good:
  assumes "automf u ts = Inr mf"
  shows "\<forall>m \<in> snd ` set mf. good (length u) m"
proof -
  obtain l where "repopulate u [] (zip ts l) = Inr mf"
    using assms by (auto simp: automf_def rbind_def split: sum.splits)
  then show ?thesis using repopulate_good[of u "[]"] by simp
qed

lemma activate_loop_good:
  assumes "activate_loop acc ap mf = Inr res" "\<forall>a \<in> snd ` set acc. good n a"
    and "\<forall>v \<in> snd ` set ap. 0 \<le> v" "\<forall>m \<in> snd ` set mf. good n m"
  shows "\<forall>a \<in> snd ` set res. good n a"
  using assms
proof (induction ap arbitrary: acc)
  case Nil
  then show ?case by simp
next
  case (Cons e ap)
  obtain k v where e: "e = (k, v)" by (cases e) auto
  obtain m where m: "map_of mf k = Some m"
      "activate_loop (AList.update k (fmin v m) acc) ap mf = Inr res"
    using Cons.prems(1) by (auto simp: e split: option.splits)
  have "(k, m) \<in> set mf" using m(1) by (rule map_of_SomeD)
  then have "m \<in> snd ` set mf" by force
  then have "good n m" using Cons.prems(4) by blast
  moreover have "0 \<le> v" using Cons.prems(3) e by simp
  ultimately have "good n (fmin v m)" by (auto simp: good_def fmin_def)
  then have "\<forall>a \<in> snd ` set (AList.update k (fmin v m) acc). good n a"
    using Cons.prems(2) by (intro update_all)
  moreover have "\<forall>v \<in> snd ` set ap. 0 \<le> v" using Cons.prems(3) by simp
  ultimately show ?case by (rule Cons.IH[OF m(2) _ _ Cons.prems(4)])
qed

lemma aggregate_good:
  assumes "aggregate activated = Inr aggr" "\<forall>a \<in> snd ` set activated. good n a"
  shows "good n aggr"
proof -
  have ne: "activated \<noteq> []" using assms(1) by (auto simp: aggregate_def)
  have len: "\<forall>a \<in> snd ` set activated. length a = n" using assms(2) by (simp add: good_def)
  have eq: "aggr = map (\<lambda>j. Max ((\<lambda>a. a ! j) ` snd ` set activated)) [0..<n]"
    using aggregate_pointwise_max[OF ne len] assms(1) by simp
  have "0 \<le> Max ((\<lambda>a. a ! j) ` snd ` set activated)" if j: "j < n" for j
  proof -
    have "Max ((\<lambda>a. a ! j) ` snd ` set activated) \<in> (\<lambda>a. a ! j) ` snd ` set activated"
      using ne by (intro Max_in) auto
    then obtain a where a: "a \<in> snd ` set activated" "Max ((\<lambda>a. a ! j) ` snd ` set activated) = a ! j"
      by auto
    have "good n a" using assms(2) a(1) by blast
    then show ?thesis using a(2) j by (simp add: good_def)
  qed
  then show ?thesis by (auto simp: good_def eq)
qed

section \<open>The default terms over the universe\<close>

lemma length_default_terms: "length default_terms = 10"
  by (simp add: default_terms_def)

lemma automf_default:
  "automf universe default_terms = Inr
     [(''-VH'', map (trimf1 (-5/4) (-1) (-3/4)) universe),
      (''-H'', map (trimf1 (-100025/100000) (-75025/100000) (-50025/100000)) universe),
      (''-M'', map (trimf1 (-7505/10000) (-5005/10000) (-2505/10000)) universe),
      (''-L'', map (trimf1 (-50075/100000) (-25075/100000) (-75/100000)) universe),
      (''-VL'', map (trimf1 (-25075/100000) (-1/1000) (-1/1000)) universe),
      (''VL'', map (trimf1 (1/1000) (1/1000) (25075/100000)) universe),
      (''L'', map (trimf1 (75/100000) (25075/100000) (50075/100000)) universe),
      (''M'', map (trimf1 (2505/10000) (5005/10000) (7505/10000)) universe),
      (''H'', map (trimf1 (50025/100000) (75025/100000) (100025/100000)) universe),
      (''VH'', map (trimf1 (3/4) 1 (5/4)) universe)]"
proof -
  have "automf universe default_terms
      = rbind (abcs universe 10) (\<lambda>l. repopulate universe [] (zip default_terms l))"
    by (simp only: automf_def length_default_terms)
  then show ?thesis
    by (simp add: abcs_default rbind_def default_terms_def trimf_def)
qed

lemma centers_default_H: "centers (length default_terms) ! 8 = 75025 / 100000"
  unfolding length_default_terms
  by (simp add: centers_def centers_pos_def centers_neg_def linspace_def upt_rec)

lemma H_center_off_grid: "(75025 / 100000 :: real) \<notin> set universe"
proof
  assume "(75025 / 100000 :: real) \<in> set universe"
  then obtain i :: nat where "(75025 / 100000 :: real) = -1 + real i / 1000"
    by (auto simp: universe_map)
  then have "real (4 * i) = real 7001" by simp
  then have "4 * i = 7001" by (simp only: of_nat_eq_iff)
  then show False by presburger
qed

lemma abcs_four:
  "abcs universe 4 = Inr [(-2, -1, 0), (-1, -1/1000, -1/1000), (1/1000, 1/1000, 1), (0, 1, 2)]"
  apply (simp add: abcs_def widths_def amin_universe amax_universe rbind_def Let_def centers_def
      centers_pos_def centers_neg_def linspace_def abcs0_def item_def item_from_end_def
      upt_rec)
  apply (simp add: eval_nat_numeral)
  done

lemma automf_duplicates:
  "map fst (projr (automf universe [''L'', ''L'', ''H'', ''H''])) = [''L'', ''H'']"
proof -
  have len: "length [''L'', ''L'', ''H'', ''H''] = 4" by simp
  have "automf universe [''L'', ''L'', ''H'', ''H'']
      = rbind (abcs universe 4) (\<lambda>l. repopulate universe [] (zip [''L'', ''L'', ''H'', ''H''] l))"
    by (simp only: automf_def len)
  then show ?thesis
    by (simp add: abcs_four rbind_def trimf_def)
qed

text \<open>
  Claim C4 as first stated fails in three ways. Two terms make \<^verbatim>\<open>centers_pos[1]\<close>
  an IndexError. Under the default ten terms the center of H, 0.75025, is no sample of the
  universe, and no degree of its array is 1, so the array has no maximum at the center.
  A label given twice has one entry in the dict.
\<close>

theorem automf_even_claim_fails:
  "automf universe [''-L'', ''L''] = Inl IndexError \<and>
   centers (length default_terms) ! 8 \<notin> set universe \<and>
   1 \<notin> set (snd (projr (automf universe default_terms) ! 8)) \<and>
   map fst (projr (automf universe [''L'', ''L'', ''H'', ''H''])) = [''L'', ''H'']"
proof -
  have "1 \<notin> set (map (trimf1 (50025/100000) (75025/100000) (100025/100000)) universe)"
  proof
    assume "1 \<in> set (map (trimf1 (50025/100000) (75025/100000) (100025/100000)) universe)"
    then obtain x where x: "x \<in> set universe"
        "trimf1 (50025/100000) (75025/100000) (100025/100000) x = 1" by auto
    have "x = 75025 / 100000"
      using x(2) trimf1_apex[of "50025/100000" "75025/100000" "100025/100000" x] by simp
    then show False using x(1) H_center_off_grid by blast
  qed
  then have a: "1 \<notin> set (snd (projr (automf universe default_terms) ! 8))"
    by (simp add: automf_default)
  have b: "centers (length default_terms) ! 8 \<notin> set universe"
    by (simp only: centers_default_H H_center_off_grid not_False_eq_True)
  show ?thesis
    using a b automf_two_terms automf_duplicates by blast
qed

section \<open>A run of gen_weights_mat on valid tables\<close>

lemma eval_str_identity:
  assumes "distinct (map fst d)" "\<forall>k \<in> fst ` set d. sq \<notin> set k \<and> dq \<notin> set k"
  shows "eval_dict (replace_dq (str_dict d)) = Inr d"
proof (cases "d = []")
  case True
  then show ?thesis by (simp add: eval_dict_def replace_dq_def str_dict_def dq_def)
next
  case False
  let ?body = "join [Ch CHR '','', Ch CHR '' ''] (map str_entry d)"
  have "replace_dq (str_dict d) = Ch CHR ''{'' # replace_dq ?body @ [Ch CHR ''}'']"
    by (simp add: replace_dq_def str_dict_def dq_def)
  also have "replace_dq ?body = ?body" using assms(2) by (intro replace_dq_join) auto
  finally have tx: "replace_dq (str_dict d) = Ch CHR ''{'' # ?body @ [Ch CHR ''}'']" .
  have ent: "entries (?body @ [Ch CHR ''}'']) = Some d"
    using False assms(2) by (intro entries_roundtrip) auto
  have ne: "?body \<noteq> []"
  proof
    assume "?body = []"
    then have "entries [Ch CHR ''}''] = Some d" using ent by simp
    then show False by (subst (asm) entries.simps) (simp add: sq_def)
  qed
  have "fold (\<lambda>e d. AList.update (fst e) (snd e) d) d [] = [] @ d"
    using assms(1) by (intro fold_update_distinct) simp
  then show ?thesis by (simp add: eval_dict_def tx ent ne)
qed

lemma for_each_append:
  "for_each body (xs @ ys) s = rbind (for_each body xs s) (for_each body ys)"
  by (induction xs arbitrary: s) (auto simp: rbind_def split: sum.splits)

lemma for_each_product:
  "for_each (\<lambda>x. for_each (body x) ys) xs s
     = for_each (\<lambda>p. body (fst p) (snd p)) (List.product xs ys) s"
proof (induction xs arbitrary: s)
  case Nil
  then show ?case by simp
next
  case (Cons x xs)
  have inner: "for_each (body x) ys s = for_each (\<lambda>p. body (fst p) (snd p)) (map (Pair x) ys) s" for s
    by (induction ys arbitrary: s) (auto simp: rbind_def split: sum.splits)
  show ?case
    by (simp add: for_each_append inner Cons.IH rbind_def split: sum.splits)
qed

lemma for_each_total:
  assumes "P s" "\<And>x t. x \<in> set xs \<Longrightarrow> P t \<Longrightarrow> \<exists>t'. body x t = Inr t' \<and> P t'"
  shows "\<exists>s'. for_each body xs s = Inr s' \<and> P s'"
  using assms
proof (induction xs arbitrary: s)
  case Nil
  then show ?case by simp
next
  case (Cons x xs)
  obtain t where t: "body x s = Inr t" "P t" using Cons.prems by fastforce
  have "\<exists>s'. for_each body xs t = Inr s' \<and> P s'"
    by (rule Cons.IH[OF t(2)]) (use Cons.prems(2) in auto)
  then show ?case using t(1) by (simp add: rbind_def)
qed

lemma for_each_establish:
  assumes "for_each body xs s = Inr s'" "x0 \<in> set xs" "P s"
    and "\<And>x t t'. x \<in> set xs \<Longrightarrow> P t \<Longrightarrow> body x t = Inr t' \<Longrightarrow> P t'"
    and "\<And>t t'. P t \<Longrightarrow> body x0 t = Inr t' \<Longrightarrow> R t'"
    and "\<And>x t t'. x \<in> set xs \<Longrightarrow> x \<noteq> x0 \<Longrightarrow> P t \<Longrightarrow> R t \<Longrightarrow> body x t = Inr t' \<Longrightarrow> R t'"
  shows "R s'"
proof -
  have main: "set ys \<subseteq> set xs \<Longrightarrow> x0 \<in> set ys \<or> R s \<Longrightarrow> P s \<Longrightarrow>
        for_each body ys s = Inr s' \<Longrightarrow> R s'" for ys s
  proof (induction ys arbitrary: s)
    case Nil
    then show ?case by simp
  next
    case (Cons x ys)
    have xin: "x \<in> set xs" using Cons.prems(1) by simp
    obtain t where t: "body x s = Inr t" "for_each body ys t = Inr s'"
      using Cons.prems(4) by (auto simp: rbind_def split: sum.splits)
    have Pt: "P t" using assms(4)[OF xin Cons.prems(3) t(1)] .
    have "x0 \<in> set ys \<or> R t"
    proof (cases "x = x0")
      case True
      then show ?thesis using assms(5)[OF Cons.prems(3)] t(1) by auto
    next
      case False
      show ?thesis
      proof (cases "x0 \<in> set ys")
        case True
        then show ?thesis by simp
      next
        case nin: False
        then have "R s" using Cons.prems(2) False by auto
        then have "R t" using assms(6)[OF xin False Cons.prems(3) _ t(1)] by simp
        then show ?thesis by simp
      qed
    qed
    moreover have "set ys \<subseteq> set xs" using Cons.prems(1) by simp
    ultimately show ?case using Cons.IH[OF _ _ Pt t(2)] by blast
  qed
  show ?thesis using main[OF subset_refl _ assms(3) assms(1)] assms(2) by simp
qed

end
